theory Spec2Isabelle
  imports Main "HOL-Library.Char_ord" "HOL-Library.List_Lexorder"
begin

section \<open>Library primitives\<close>

text \<open>
  The repository hashes with \<^verbatim>\<open>hashlib.sha256(s.encode()).hexdigest()\<close>. SHA-256 is
  library code; every function below that hashes takes it as the parameter \<open>H\<close>, a
  function from the text that is hashed to the hex digest. Python strings are modelled
  as \<open>string\<close>, one \<open>char\<close> per character; case mapping and white space are
  modelled for ASCII.
\<close>

type_synonym sha256 = "string \<Rightarrow> string"

section \<open>x\_vault.py: MerkleTree\<close>

record merkle_tree =
  leaves :: "string list"
  tree :: "string list list"

text \<open>\<^verbatim>\<open>MerkleTree.__init__\<close> with no leaves: \<^verbatim>\<open>leaves or []\<close>, empty tree.\<close>

definition MerkleTree_empty :: merkle_tree where
  "MerkleTree_empty = \<lparr>leaves = [], tree = []\<rparr>"

definition hash_pair :: "sha256 \<Rightarrow> string \<Rightarrow> string \<Rightarrow> string" where
  "hash_pair H left right = H (left @ right)"

text \<open>
  The inner \<^verbatim>\<open>for i in range(0, len(level), 2)\<close> loop of \<^verbatim>\<open>_build_tree\<close>:
  adjacent nodes are paired, and a last node without a partner is paired with itself.
\<close>

fun next_level :: "sha256 \<Rightarrow> string list \<Rightarrow> string list" where
  "next_level H [] = []"
| "next_level H [x] = [hash_pair H x x]"
| "next_level H (x # y # zs) = hash_pair H x y # next_level H zs"

text \<open>The \<^verbatim>\<open>while len(self.tree[-1]) > 1\<close> loop, started from the level of the leaves.\<close>

function build_levels :: "sha256 \<Rightarrow> string list \<Rightarrow> string list list" where
  "build_levels H level =
     (if length level > 1 then level # build_levels H (next_level H level) else [level])"
  by pat_completeness auto
termination
proof (relation "measure (\<lambda>(H, level). length level)")
  show "wf (measure (\<lambda>(H :: sha256, level :: string list). length level))"
    by simp
next
  fix H :: sha256 and level :: "string list"
  assume long: "1 < length level"
  have "length (next_level H xs) = (length xs + 1) div 2" for xs
    by (induction H xs rule: next_level.induct) auto
  with long show "((H, next_level H level), (H, level)) \<in> measure (\<lambda>(H, level). length level)"
    by simp
qed

declare build_levels.simps [simp del]

definition build_tree :: "sha256 \<Rightarrow> merkle_tree \<Rightarrow> merkle_tree" where
  "build_tree H t = (if leaves t = [] then t else t\<lparr>tree := build_levels H (leaves t)\<rparr>)"

text \<open>\<^verbatim>\<open>MerkleTree(leaves)\<close>: the constructor builds the tree when there are leaves.\<close>

definition MerkleTree :: "sha256 \<Rightarrow> string list \<Rightarrow> merkle_tree" where
  "MerkleTree H ls = build_tree H \<lparr>leaves = ls, tree = []\<rparr>"

definition add_leaf :: "sha256 \<Rightarrow> string \<Rightarrow> merkle_tree \<Rightarrow> merkle_tree" where
  "add_leaf H leaf_hash t = build_tree H (t\<lparr>leaves := leaves t @ [leaf_hash]\<rparr>)"

definition root :: "merkle_tree \<Rightarrow> string option" where
  "root t =
     (if tree t = [] then None
      else (case last (tree t) of [] \<Rightarrow> None | x # _ \<Rightarrow> Some x))"

text \<open>
  The loop of \<^verbatim>\<open>get_proof\<close> over \<^verbatim>\<open>self.tree[:-1]\<close>. A sibling index beyond the
  level adds nothing to the proof. The leaf index is a natural number: the ledger only
  asks for \<^verbatim>\<open>len(leaves) - 1\<close>.
\<close>

fun proof_walk :: "string list list \<Rightarrow> nat \<Rightarrow> (string \<times> string) list" where
  "proof_walk [] index = []"
| "proof_walk (level # levels) index =
     (let sibling_index = (if index mod 2 = 0 then index + 1 else index - 1);
          position = (if index mod 2 = 0 then ''right'' else ''left'')
      in (if sibling_index < length level then [(level ! sibling_index, position)] else [])
         @ proof_walk levels (index div 2))"

definition get_proof :: "merkle_tree \<Rightarrow> nat \<Rightarrow> (string \<times> string) list" where
  "get_proof t leaf_index =
     (if leaf_index \<ge> length (leaves t) then [] else proof_walk (butlast (tree t)) leaf_index)"

fun verify_walk :: "sha256 \<Rightarrow> string \<Rightarrow> (string \<times> string) list \<Rightarrow> string" where
  "verify_walk H current [] = current"
| "verify_walk H current ((sibling_hash, position) # rest) =
     verify_walk H
       (H (if position = ''right'' then current @ sibling_hash else sibling_hash @ current))
       rest"

definition verify_proof :: "sha256 \<Rightarrow> string \<Rightarrow> (string \<times> string) list \<Rightarrow> string \<Rightarrow> bool" where
  "verify_proof H leaf_hash prf rt = (verify_walk H leaf_hash prf = rt)"

section \<open>Canonical JSON\<close>

text \<open>
  Values that Python's \<^verbatim>\<open>json\<close> module reads and writes: \<^verbatim>\<open>None\<close>, booleans,
  integers, strings, lists, and dictionaries with string keys (kept as association
  lists in insertion order). Floating-point numbers are left out.
\<close>

datatype json =
    JNull
  | JBool bool
  | JInt int
  | JStr string
  | JList "json list"
  | JDict "(string \<times> json) list"

text \<open>Python truthiness, as used by \<^verbatim>\<open>not x\<close>, \<^verbatim>\<open>x or y\<close> and \<^verbatim>\<open>if x\<close>.\<close>

fun truthy :: "json \<Rightarrow> bool" where
  "truthy JNull = False"
| "truthy (JBool b) = b"
| "truthy (JInt i) = (i \<noteq> 0)"
| "truthy (JStr s) = (s \<noteq> [])"
| "truthy (JList xs) = (xs \<noteq> [])"
| "truthy (JDict kvs) = (kvs \<noteq> [])"

definition digit_char :: "nat \<Rightarrow> char" where
  "digit_char d = char_of (48 + d)"

text \<open>\<^verbatim>\<open>str(n)\<close> for a non-negative integer.\<close>

function str_nat :: "nat \<Rightarrow> string" where
  "str_nat n = (if n < 10 then [digit_char n] else str_nat (n div 10) @ [digit_char (n mod 10)])"
  by pat_completeness auto
termination
  by (relation "measure id") auto

declare str_nat.simps [simp del]

definition str_int :: "int \<Rightarrow> string" where
  "str_int i = (if i < 0 then CHR ''-'' # str_nat (nat (- i)) else str_nat (nat i))"

definition hex_char :: "nat \<Rightarrow> char" where
  "hex_char d = (if d < 10 then char_of (48 + d) else char_of (87 + d))"

text \<open>
  String escaping of \<^verbatim>\<open>json.dumps\<close>. With \<^verbatim>\<open>ensure_ascii=True\<close> (the default)
  everything outside the printable ASCII range is written as \<^verbatim>\<open>\uXXXX\<close>; with
  \<^verbatim>\<open>ensure_ascii=False\<close> only control characters, the quote and the backslash are.
\<close>

definition escape_char :: "bool \<Rightarrow> char \<Rightarrow> string" where
  "escape_char ensure_ascii c =
     (if c = CHR 0x22 then [CHR 0x5C, CHR 0x22]
      else if c = CHR 0x5C then [CHR 0x5C, CHR 0x5C]
      else if c = CHR 0x0A then [CHR 0x5C, CHR ''n'']
      else if c = CHR 0x0D then [CHR 0x5C, CHR ''r'']
      else if c = CHR 0x09 then [CHR 0x5C, CHR ''t'']
      else if c = CHR 0x08 then [CHR 0x5C, CHR ''b'']
      else if c = CHR 0x0C then [CHR 0x5C, CHR ''f'']
      else if (of_char c :: nat) < 32 \<or> (ensure_ascii \<and> (of_char c :: nat) > 126)
      then [CHR 0x5C, CHR ''u'', CHR ''0'', CHR ''0'',
            hex_char ((of_char c :: nat) div 16), hex_char ((of_char c :: nat) mod 16)]
      else [c])"

definition dumps_str :: "bool \<Rightarrow> string \<Rightarrow> string" where
  "dumps_str ensure_ascii s = [CHR 0x22] @ concat (map (escape_char ensure_ascii) s) @ [CHR 0x22]"

text \<open>\<^verbatim>\<open>sep.join(parts)\<close>.\<close>

fun join :: "string \<Rightarrow> string list \<Rightarrow> string" where
  "join sep [] = []"
| "join sep [x] = x"
| "join sep (x # y # zs) = x @ sep @ join sep (y # zs)"

text \<open>
  \<^verbatim>\<open>json.dumps(v, sort_keys=True, ensure_ascii=...)\<close> with the default separators:
  dictionary items are written in the order of their keys.
\<close>

fun json_dumps :: "bool \<Rightarrow> json \<Rightarrow> string" where
  "json_dumps ea JNull = ''null''"
| "json_dumps ea (JBool b) = (if b then ''true'' else ''false'')"
| "json_dumps ea (JInt i) = str_int i"
| "json_dumps ea (JStr s) = dumps_str ea s"
| "json_dumps ea (JList xs) = ''['' @ join '', '' (map (json_dumps ea) xs) @ '']''"
| "json_dumps ea (JDict kvs) =
     ''{'' @ join '', ''
              (map (\<lambda>(k, s). dumps_str ea k @ '': '' @ s)
                 (sort_key fst (map (\<lambda>(k, v). (k, json_dumps ea v)) kvs)))
       @ ''}''"

section \<open>x\_vault.py: XVault\<close>

datatype py_error = ValueError | TypeError | KeyError | AttributeError

text \<open>
  The content of an evidence record is whatever Python value the caller hands to
  \<^verbatim>\<open>seal\<close> or writes into a stored record later: the JSON values, tuples, and
  \<open>PyObject\<close> for a value that \<^verbatim>\<open>json.dumps\<close> cannot serialise (a set, bytes, an
  instance of a class), named by its type. Dictionaries have string keys;
  floating-point numbers and cyclic values are left out.
\<close>

datatype py =
    PyNone
  | PyBool bool
  | PyInt int
  | PyStr string
  | PyList "py list"
  | PyTuple "py list"
  | PyDict "(string \<times> py) list"
  | PyObject string

text \<open>The results of a list of computations, or the first error among them.\<close>

fun try_all :: "(py_error + 'a) list \<Rightarrow> py_error + 'a list" where
  "try_all [] = Inr []"
| "try_all (x # xs) =
     (case x of
        Inl err \<Rightarrow> Inl err
      | Inr y \<Rightarrow> (case try_all xs of Inl err \<Rightarrow> Inl err | Inr ys \<Rightarrow> Inr (y # ys)))"

text \<open>
  What the encoder of \<^verbatim>\<open>json.dumps\<close> makes of a Python value: a tuple is written as
  a list, and a value it cannot serialise raises \<^verbatim>\<open>TypeError\<close>.
\<close>

fun to_json :: "py \<Rightarrow> py_error + json" where
  "to_json PyNone = Inr JNull"
| "to_json (PyBool b) = Inr (JBool b)"
| "to_json (PyInt i) = Inr (JInt i)"
| "to_json (PyStr s) = Inr (JStr s)"
| "to_json (PyList xs) =
     (case try_all (map to_json xs) of Inl err \<Rightarrow> Inl err | Inr js \<Rightarrow> Inr (JList js))"
| "to_json (PyTuple xs) =
     (case try_all (map to_json xs) of Inl err \<Rightarrow> Inl err | Inr js \<Rightarrow> Inr (JList js))"
| "to_json (PyDict kvs) =
     (case try_all (map (\<lambda>(k, v). case to_json v of Inl err \<Rightarrow> Inl err | Inr j \<Rightarrow> Inr (k, j)) kvs) of
        Inl err \<Rightarrow> Inl err
      | Inr items \<Rightarrow> Inr (JDict items))"
| "to_json (PyObject name) = Inl TypeError"

text \<open>\<^verbatim>\<open>json.dumps(v, sort_keys=True, ensure_ascii=...)\<close> on a Python value.\<close>

definition py_dumps :: "bool \<Rightarrow> py \<Rightarrow> py_error + string" where
  "py_dumps ea v = (case to_json v of Inl err \<Rightarrow> Inl err | Inr j \<Rightarrow> Inr (json_dumps ea j))"

datatype evidence_type =
    WITNESS_RESPONSE
  | AUTHORIZATION_DECISION
  | KNOWLEDGE_PUBLISH
  | RULE_PROFILE_CHANGE
  | SYSTEM_EVENT
  | EXPORT_EVENT

record evidence_object =
  evidence_id :: string
  evidence_type :: evidence_type
  timestamp :: string
  content_hash :: string
  content :: py
  merkle_path :: "string list"
  previous_hash :: string
  signature :: string
  metadata :: json

text \<open>
  The ledger. Snapshots and the regulator export are left out: they read the evidence
  chain and write to it only by calling \<^verbatim>\<open>seal\<close>.
\<close>

record xvault =
  org_id :: string
  signing_key :: string
  evidence_chain :: "evidence_object list"
  merkle_tree :: merkle_tree
  last_hash :: string

definition XVault :: "string \<Rightarrow> string \<Rightarrow> xvault" where
  "XVault org key =
     \<lparr>org_id = org, signing_key = key, evidence_chain = [],
      merkle_tree = MerkleTree_empty, last_hash = ''genesis''\<rparr>"

text \<open>
  \<^verbatim>\<open>sha256(json.dumps(content, sort_keys=True, ensure_ascii=False).encode()).hexdigest()\<close>,
  as \<^verbatim>\<open>seal\<close> and \<^verbatim>\<open>EvidenceObject.verify\<close> compute it; an error of
  \<^verbatim>\<open>json.dumps\<close> is not caught.
\<close>

definition content_digest :: "sha256 \<Rightarrow> py \<Rightarrow> py_error + string" where
  "content_digest H c = (case py_dumps False c of Inl err \<Rightarrow> Inl err | Inr s \<Rightarrow> Inr (H s))"

definition verify :: "sha256 \<Rightarrow> evidence_object \<Rightarrow> py_error + bool" where
  "verify H e =
     (case content_digest H (content e) of
        Inl err \<Rightarrow> Inl err
      | Inr computed \<Rightarrow> Inr (computed = content_hash e))"

definition sign :: "sha256 \<Rightarrow> xvault \<Rightarrow> string \<Rightarrow> string \<Rightarrow> string" where
  "sign H v data ts = H (data @ '':'' @ ts @ '':'' @ org_id v @ '':'' @ signing_key v)"

text \<open>
  \<^verbatim>\<open>seal\<close>. The clock reading \<open>now\<close> and the fresh \<^verbatim>\<open>uuid4\<close> are inputs. The
  content is hashed before the ledger is touched, so a content that cannot be serialised
  raises and leaves the ledger as it was.
\<close>

definition seal ::
  "sha256 \<Rightarrow> string \<Rightarrow> string \<Rightarrow> evidence_type \<Rightarrow> py \<Rightarrow> json option \<Rightarrow> xvault
     \<Rightarrow> py_error + (evidence_object \<times> xvault)" where
  "seal H now uuid etype cont meta v =
     (case content_digest H cont of
        Inl err \<Rightarrow> Inl err
      | Inr chash \<Rightarrow>
          (let mt = add_leaf H chash (merkle_tree v);
               leaf_index = length (leaves mt) - 1;
               merkle_proof = get_proof mt leaf_index;
               mpath = map (\<lambda>(h, p). h @ '':'' @ p) merkle_proof;
               sig = sign H v chash now;
               evidence =
                 \<lparr>evidence_id = uuid, evidence_type = etype, timestamp = now,
                  content_hash = chash, content = cont, merkle_path = mpath,
                  previous_hash = last_hash v, signature = sig,
                  metadata = (case meta of None \<Rightarrow> JDict []
                              | Some m \<Rightarrow> if truthy m then m else JDict [])\<rparr>
           in Inr (evidence,
                   v\<lparr>evidence_chain := evidence_chain v @ [evidence],
                     merkle_tree := mt, last_hash := chash\<rparr>)))"

text \<open>\<^verbatim>\<open>s.split(sep)\<close> for a one-character separator.\<close>

fun split_on :: "char \<Rightarrow> string \<Rightarrow> string list" where
  "split_on sep [] = [[]]"
| "split_on sep (x # xs) =
     (if x = sep then [] # split_on sep xs
      else (case split_on sep xs of [] \<Rightarrow> [[x]] | w # ws \<Rightarrow> (x # w) # ws))"

text \<open>\<^verbatim>\<open>h, p = item.split(":")\<close>: anything but two parts raises \<^verbatim>\<open>ValueError\<close>.\<close>

definition unpack_item :: "string \<Rightarrow> py_error + (string \<times> string)" where
  "unpack_item item =
     (case split_on CHR '':'' item of [h, p] \<Rightarrow> Inr (h, p) | _ \<Rightarrow> Inl ValueError)"

fun parse_path :: "string list \<Rightarrow> py_error + (string \<times> string) list" where
  "parse_path [] = Inr []"
| "parse_path (item # items) =
     (case unpack_item item of
        Inl err \<Rightarrow> Inl err
      | Inr hp \<Rightarrow> (case parse_path items of Inl err \<Rightarrow> Inl err | Inr rest \<Rightarrow> Inr (hp # rest)))"

definition verify_evidence :: "sha256 \<Rightarrow> xvault \<Rightarrow> evidence_object \<Rightarrow> py_error + bool" where
  "verify_evidence H v e =
     (case verify H e of
        Inl err \<Rightarrow> Inl err
      | Inr ok \<Rightarrow>
          if \<not> ok then Inr False
          else (case root (merkle_tree v) of
                  None \<Rightarrow> Inr True
                | Some rt \<Rightarrow>
                    if merkle_path e \<noteq> [] \<and> rt \<noteq> []
                    then (case parse_path (merkle_path e) of
                            Inl err \<Rightarrow> Inl err
                          | Inr prf \<Rightarrow> Inr (verify_proof H (content_hash e) prf rt))
                    else Inr True))"



section \<open>Python strings and dictionaries\<close>

text \<open>White space as \<^verbatim>\<open>str.strip\<close>, \<^verbatim>\<open>str.split\<close> and the regex class \<^verbatim>\<open>\s\<close> see it.\<close>

definition is_space :: "char \<Rightarrow> bool" where
  "is_space c =
     (c \<in> set [CHR 0x20, CHR 0x09, CHR 0x0A, CHR 0x0B, CHR 0x0C, CHR 0x0D,
               CHR 0x1C, CHR 0x1D, CHR 0x1E, CHR 0x1F])"

definition strip :: "string \<Rightarrow> string" where
  "strip s = rev (dropWhile is_space (rev (dropWhile is_space s)))"

definition upper_char :: "char \<Rightarrow> char" where
  "upper_char c = (if CHR ''a'' \<le> c \<and> c \<le> CHR ''z'' then char_of ((of_char c :: nat) - 32) else c)"

definition upper :: "string \<Rightarrow> string" where
  "upper s = map upper_char s"

definition startswith :: "string \<Rightarrow> string \<Rightarrow> bool" where
  "startswith s p = (take (length p) s = p)"

text \<open>\<^verbatim>\<open>s.split()\<close>: the maximal runs of characters that are not white space.\<close>

fun split_ws_acc :: "string \<Rightarrow> string \<Rightarrow> string list" where
  "split_ws_acc cur [] = (if cur = [] then [] else [rev cur])"
| "split_ws_acc cur (c # cs) =
     (if is_space c
      then (if cur = [] then split_ws_acc [] cs else rev cur # split_ws_acc [] cs)
      else split_ws_acc (c # cur) cs)"

definition split_ws :: "string \<Rightarrow> string list" where
  "split_ws s = split_ws_acc [] s"

text \<open>\<^verbatim>\<open>"%06d"\<close>: padding with zeros to six digits.\<close>

definition zfill6 :: "string \<Rightarrow> string" where
  "zfill6 s = replicate (6 - length s) CHR ''0'' @ s"

text \<open>\<^verbatim>\<open>repr\<close> and \<^verbatim>\<open>str\<close>, as f-strings use them.\<close>

definition repr_char :: "char \<Rightarrow> char \<Rightarrow> string" where
  "repr_char quote c =
     (if c = quote \<or> c = CHR 0x5C then [CHR 0x5C, c]
      else if c = CHR 0x0A then [CHR 0x5C, CHR ''n'']
      else if c = CHR 0x0D then [CHR 0x5C, CHR ''r'']
      else if c = CHR 0x09 then [CHR 0x5C, CHR ''t'']
      else if (of_char c :: nat) < 32 \<or> (of_char c :: nat) = 127
      then [CHR 0x5C, CHR ''x'',
            hex_char ((of_char c :: nat) div 16), hex_char ((of_char c :: nat) mod 16)]
      else [c])"

definition repr_str :: "string \<Rightarrow> string" where
  "repr_str s =
     (let quote = (if CHR 0x27 \<in> set s \<and> CHR 0x22 \<notin> set s then CHR 0x22 else CHR 0x27)
      in [quote] @ concat (map (repr_char quote) s) @ [quote])"

fun py_repr :: "json \<Rightarrow> string" where
  "py_repr JNull = ''None''"
| "py_repr (JBool b) = (if b then ''True'' else ''False'')"
| "py_repr (JInt i) = str_int i"
| "py_repr (JStr s) = repr_str s"
| "py_repr (JList xs) = ''['' @ join '', '' (map py_repr xs) @ '']''"
| "py_repr (JDict kvs) =
     ''{'' @ join '', '' (map (\<lambda>(k, v). repr_str k @ '': '' @ py_repr v) kvs) @ ''}''"

fun py_str :: "json \<Rightarrow> string" where
  "py_str (JStr s) = s"
| "py_str v = py_repr v"

text \<open>
  A dictionary with string keys is an association list with distinct keys.
  \<^verbatim>\<open>d.get(k)\<close>, \<^verbatim>\<open>d.get(k, default)\<close>, \<^verbatim>\<open>d[k] = v\<close>, \<^verbatim>\<open>x[k]\<close> and iteration.
\<close>

type_synonym dict = "(string \<times> json) list"

definition dict_get :: "dict \<Rightarrow> string \<Rightarrow> json" where
  "dict_get d k = (case map_of d k of None \<Rightarrow> JNull | Some v \<Rightarrow> v)"

definition dict_get_default :: "dict \<Rightarrow> string \<Rightarrow> json \<Rightarrow> json" where
  "dict_get_default d k dflt = (case map_of d k of None \<Rightarrow> dflt | Some v \<Rightarrow> v)"

fun dict_set :: "string \<Rightarrow> json \<Rightarrow> dict \<Rightarrow> dict" where
  "dict_set k v [] = [(k, v)]"
| "dict_set k v ((k', v') # d) = (if k' = k then (k, v) # d else (k', v') # dict_set k v d)"

fun subscript :: "json \<Rightarrow> string \<Rightarrow> py_error + json" where
  "subscript (JDict kvs) k = (case map_of kvs k of None \<Rightarrow> Inl KeyError | Some v \<Rightarrow> Inr v)"
| "subscript v k = Inl TypeError"

fun py_iter :: "json \<Rightarrow> py_error + json list" where
  "py_iter (JList xs) = Inr xs"
| "py_iter (JStr s) = Inr (map (\<lambda>c. JStr [c]) s)"
| "py_iter (JDict kvs) = Inr (map (\<lambda>(k, v). JStr k) kvs)"
| "py_iter v = Inl TypeError"

section \<open>trinity\_api.py: project ids, commands and rules\<close>

definition is_digit :: "char \<Rightarrow> bool" where
  "is_digit c = (CHR ''0'' \<le> c \<and> c \<le> CHR ''9'')"

definition is_lower_alnum :: "char \<Rightarrow> bool" where
  "is_lower_alnum c = ((CHR ''a'' \<le> c \<and> c \<le> CHR ''z'') \<or> is_digit c)"

text \<open>
  The words of \<^verbatim>\<open>[a-z0-9][a-z0-9-]{0,62}[a-z0-9]\<close>: a first character, up to 62
  inner characters, a last character.
\<close>

definition project_id_body :: "string \<Rightarrow> bool" where
  "project_id_body s =
     (case s of
        [] \<Rightarrow> False
      | c # rest \<Rightarrow>
          is_lower_alnum c \<and> rest \<noteq> [] \<and> length (butlast rest) \<le> 62
          \<and> list_all (\<lambda>x. is_lower_alnum x \<or> x = CHR ''-'') (butlast rest)
          \<and> is_lower_alnum (last rest))"

text \<open>
  \<^verbatim>\<open>PROJECT_ID_REGEX.match(s)\<close> for \<^verbatim>\<open>^body$\<close>: Python's \<^verbatim>\<open>$\<close> matches at the
  end of the string and also just before a newline that ends the string.
\<close>

definition PROJECT_ID_REGEX_match :: "string \<Rightarrow> bool" where
  "PROJECT_ID_REGEX_match s =
     (project_id_body s \<or> (s \<noteq> [] \<and> last s = CHR 0x0A \<and> project_id_body (butlast s)))"

definition normalize_project_id :: "json \<Rightarrow> py_error + (string \<times> string)" where
  "normalize_project_id project_id =
     (if \<not> truthy project_id then Inr (''legacy'', ''v1'')
      else (case project_id of
              JStr s \<Rightarrow> if \<not> PROJECT_ID_REGEX_match s then Inl ValueError else Inr (s, ''v2'')
            | _ \<Rightarrow> Inl TypeError))"

text \<open>
  The partition-id grammar in the words of the specification: lowercase alphanumerics
  and internal hyphens only, 2 to 64 characters, starting and ending with an
  alphanumeric.
\<close>

definition spec_partition_id :: "string \<Rightarrow> bool" where
  "spec_partition_id s =
     (2 \<le> length s \<and> length s \<le> 64
      \<and> list_all (\<lambda>x. is_lower_alnum x \<or> x = CHR ''-'') s
      \<and> is_lower_alnum (hd s) \<and> is_lower_alnum (last s))"

datatype ecl_decision_command =
    CLASSIFY
  | APPROVE_GOVERNANCE
  | ACCEPT_RISK
  | APPROVE_DATA
  | APPROVE_CHANGE
  | INCIDENT_ACTION
  | DECOMMISSION

definition all_commands :: "ecl_decision_command list" where
  "all_commands =
     [CLASSIFY, APPROVE_GOVERNANCE, ACCEPT_RISK, APPROVE_DATA, APPROVE_CHANGE,
      INCIDENT_ACTION, DECOMMISSION]"

fun command_value :: "ecl_decision_command \<Rightarrow> string" where
  "command_value CLASSIFY = ''CLASSIFY''"
| "command_value APPROVE_GOVERNANCE = ''APPROVE_GOVERNANCE''"
| "command_value ACCEPT_RISK = ''ACCEPT_RISK''"
| "command_value APPROVE_DATA = ''APPROVE_DATA''"
| "command_value APPROVE_CHANGE = ''APPROVE_CHANGE''"
| "command_value INCIDENT_ACTION = ''INCIDENT_ACTION''"
| "command_value DECOMMISSION = ''DECOMMISSION''"

text \<open>\<^verbatim>\<open>ECLDecisionCommand(verb)\<close>; \<open>None\<close> stands for the \<^verbatim>\<open>ValueError\<close>.\<close>

definition ECLDecisionCommand :: "string \<Rightarrow> ecl_decision_command option" where
  "ECLDecisionCommand verb = find (\<lambda>c. command_value c = verb) all_commands"

text \<open>\<^verbatim>\<open>COMMAND_TO_DECISION_TYPE[cmd].value\<close>.\<close>

fun COMMAND_TO_DECISION_TYPE :: "ecl_decision_command \<Rightarrow> string" where
  "COMMAND_TO_DECISION_TYPE CLASSIFY = ''CLASSIFICATION''"
| "COMMAND_TO_DECISION_TYPE APPROVE_GOVERNANCE = ''GOVERNANCE_APPROVAL''"
| "COMMAND_TO_DECISION_TYPE ACCEPT_RISK = ''RISK_ACCEPTANCE''"
| "COMMAND_TO_DECISION_TYPE APPROVE_DATA = ''DATA_APPROVAL''"
| "COMMAND_TO_DECISION_TYPE APPROVE_CHANGE = ''CHANGE_APPROVAL''"
| "COMMAND_TO_DECISION_TYPE INCIDENT_ACTION = ''INCIDENT_ACTION''"
| "COMMAND_TO_DECISION_TYPE DECOMMISSION = ''DECOMMISSION''"

datatype risk_requirement = Risk_False | Risk_True | Risk_conditional

record rules =
  required_artifacts :: "(string \<times> nat) list"
  required_roles :: "string list"
  requires_risk_links :: risk_requirement

fun VALIDATION_RULES :: "ecl_decision_command \<Rightarrow> rules" where
  "VALIDATION_RULES CLASSIFY =
     \<lparr>required_artifacts = [(''CDOC-SCOPE'', 1), (''CDOC-CLASS'', 1)],
      required_roles = [''Compliance Owner''],
      requires_risk_links = Risk_False\<rparr>"
| "VALIDATION_RULES APPROVE_GOVERNANCE =
     \<lparr>required_artifacts = [(''CDOC-ROLES'', 1), (''CDOC-MANDATE'', 1)],
      required_roles = [''Legal Counsel'', ''Board Member''],
      requires_risk_links = Risk_False\<rparr>"
| "VALIDATION_RULES ACCEPT_RISK =
     \<lparr>required_artifacts = [(''CDOC-RISK'', 1), (''CDOC-MITIGATION'', 1)],
      required_roles = [''Risk Owner'', ''Compliance Owner''],
      requires_risk_links = Risk_True\<rparr>"
| "VALIDATION_RULES APPROVE_DATA =
     \<lparr>required_artifacts = [(''CDOC-DATA'', 1), (''CDOC-QUALITY'', 1)],
      required_roles = [''Data Protection Officer''],
      requires_risk_links = Risk_False\<rparr>"
| "VALIDATION_RULES APPROVE_CHANGE =
     \<lparr>required_artifacts = [(''CDOC-CHANGE'', 1), (''CDOC-IMPACT'', 1)],
      required_roles = [''System Owner'', ''Compliance Owner''],
      requires_risk_links = Risk_conditional\<rparr>"
| "VALIDATION_RULES INCIDENT_ACTION =
     \<lparr>required_artifacts = [(''CDOC-INCIDENT'', 1), (''CDOC-ACTION'', 1)],
      required_roles = [''Incident Manager''],
      requires_risk_links = Risk_True\<rparr>"
| "VALIDATION_RULES DECOMMISSION =
     \<lparr>required_artifacts = [(''CDOC-DECOM'', 1), (''CDOC-ARCHIVE'', 1)],
      required_roles = [''System Owner'', ''Legal Counsel''],
      requires_risk_links = Risk_False\<rparr>"

text \<open>The table as \<^verbatim>\<open>json.dumps(VALIDATION_RULES, sort_keys=True, default=str)\<close> sees it.\<close>

definition rules_json :: "rules \<Rightarrow> json" where
  "rules_json r =
     JDict [(''required_artifacts'',
               JList (map (\<lambda>(p, n). JList [JStr p, JInt (int n)]) (required_artifacts r))),
            (''required_roles'', JList (map JStr (required_roles r))),
            (''requires_risk_links'',
               (case requires_risk_links r of
                  Risk_False \<Rightarrow> JBool False
                | Risk_True \<Rightarrow> JBool True
                | Risk_conditional \<Rightarrow> JStr ''conditional''))]"

definition VALIDATION_RULES_json :: json where
  "VALIDATION_RULES_json =
     JDict (map (\<lambda>c. (command_value c, rules_json (VALIDATION_RULES c))) all_commands)"

record command =
  cmd_type :: string
  verb :: string
  params :: dict

record parse_result =
  success :: bool
  command :: "command option"
  parse_errors :: "string list"

record validation =
  valid :: bool
  errors :: "string list"
  warnings :: "string list"

section \<open>trinity\_api.py: ECLValidator\<close>

text \<open>\<^verbatim>\<open>[a for a in artifacts if a.upper().startswith(prefix.upper())]\<close>.\<close>

fun matching :: "string \<Rightarrow> json list \<Rightarrow> py_error + json list" where
  "matching prefix [] = Inr []"
| "matching prefix (a # rest) =
     (case a of
        JStr s \<Rightarrow>
          (case matching prefix rest of
             Inl err \<Rightarrow> Inl err
           | Inr ms \<Rightarrow> Inr (if startswith (upper s) (upper prefix) then a # ms else ms))
      | _ \<Rightarrow> Inl AttributeError)"

fun artifact_errors :: "string \<Rightarrow> json \<Rightarrow> (string \<times> nat) list \<Rightarrow> py_error + string list" where
  "artifact_errors vb artifacts [] = Inr []"
| "artifact_errors vb artifacts ((prefix, min_count) # reqs) =
     (case py_iter artifacts of
        Inl err \<Rightarrow> Inl err
      | Inr items \<Rightarrow>
          (case matching prefix items of
             Inl err \<Rightarrow> Inl err
           | Inr ms \<Rightarrow>
               (case artifact_errors vb artifacts reqs of
                  Inl err \<Rightarrow> Inl err
                | Inr errs \<Rightarrow>
                    Inr ((if length ms < min_count
                          then [vb @ '' requires '' @ str_nat min_count
                                @ '' artifact(s) with prefix '' @ [CHR 0x27] @ prefix
                                @ [CHR 0x27] @ ''. Found: '' @ str_nat (length ms)]
                          else []) @ errs))))"

text \<open>\<^verbatim>\<open>[s["role"] for s in signoffs]\<close>.\<close>

fun roles_of :: "json list \<Rightarrow> py_error + json list" where
  "roles_of [] = Inr []"
| "roles_of (s # rest) =
     (case subscript s ''role'' of
        Inl err \<Rightarrow> Inl err
      | Inr r \<Rightarrow> (case roles_of rest of Inl err \<Rightarrow> Inl err | Inr rs \<Rightarrow> Inr (r # rs)))"

definition role_errors :: "string \<Rightarrow> json list \<Rightarrow> string list \<Rightarrow> string list" where
  "role_errors vb provided_roles required =
     concat (map (\<lambda>required_role.
                    if JStr required_role \<notin> set provided_roles
                    then [vb @ '' requires signoff from: '' @ [CHR 0x27] @ required_role
                          @ [CHR 0x27]]
                    else []) required)"

definition validate :: "command \<Rightarrow> py_error + validation" where
  "validate cmd =
     (if cmd_type cmd = ''read'' then Inr \<lparr>valid = True, errors = [], warnings = []\<rparr>
      else
        (case ECLDecisionCommand (verb cmd) of
           None \<Rightarrow>
             Inr \<lparr>valid = False, errors = [''Unknown decision command: '' @ verb cmd],
                  warnings = []\<rparr>
         | Some cmd_enum \<Rightarrow>
             (let rls = VALIDATION_RULES cmd_enum;
                  errors1 = (if \<not> truthy (dict_get (params cmd) ''system_id'')
                             then [verb cmd @ '' requires system_id''] else []);
                  artifacts = dict_get_default (params cmd) ''artifacts'' (JList [])
              in case artifact_errors (verb cmd) artifacts (required_artifacts rls) of
                   Inl err \<Rightarrow> Inl err
                 | Inr errors2 \<Rightarrow>
                     (case py_iter (dict_get_default (params cmd) ''signoff'' (JList [])) of
                        Inl err \<Rightarrow> Inl err
                      | Inr signoffs \<Rightarrow>
                          (case roles_of signoffs of
                             Inl err \<Rightarrow> Inl err
                           | Inr provided_roles \<Rightarrow>
                               (let errors3 = role_errors (verb cmd) provided_roles
                                                (required_roles rls);
                                    risk_links = dict_get_default (params cmd) ''risk_links''
                                                   (JList []);
                                    errors4 =
                                      (if requires_risk_links rls = Risk_True
                                          \<and> \<not> truthy risk_links
                                       then [verb cmd @ '' requires at least one risk_link'']
                                       else []);
                                    warnings1 =
                                      (if requires_risk_links rls = Risk_conditional
                                          \<and> \<not> truthy risk_links
                                       then [verb cmd
                                             @ '' may require risk_links depending on impact'']
                                       else []);
                                    warnings2 =
                                      (if \<not> truthy (dict_get (params cmd) ''use_case'')
                                       then [verb cmd
                                             @ '' should include use_case for traceability'']
                                       else []);
                                    errs = errors1 @ errors2 @ errors3 @ errors4
                                in Inr \<lparr>valid = (errs = []), errors = errs,
                                        warnings = warnings1 @ warnings2\<rparr>))))))"

section \<open>trinity\_api.py: Database\<close>

record decision =
  eve_decision_id :: string
  project_id :: string
  hash_version :: string
  decision_type :: string
  status :: string
  created_at :: string
  executed_by :: "json list"
  scope :: json
  source_artifacts :: json
  risk_links :: json
  rule_set_version :: string
  context_hash :: string
  supersedes :: json
  superseded_by :: "string option"

record vault_entry =
  entry_decision_id :: string
  entry_evidence_type :: string
  payload_hash :: string
  sealed_at :: string
  vault_proof :: string

record artifact =
  artifact_id :: string
  artifact_status :: string
  artifact_content :: json
  artifact_created_at :: string
  artifact_decision_id :: "string option"

record database =
  edi_sequence :: "string \<rightharpoonup> nat"
  decisions :: "decision list"
  vault :: "vault_entry list"
  artifacts :: "artifact list"

text \<open>The state of \<^verbatim>\<open>_load\<close> when there is no file.\<close>

definition empty_db :: database where
  "empty_db = \<lparr>edi_sequence = Map.empty, decisions = [], vault = [], artifacts = []\<rparr>"

text \<open>The readings of the clock during one call of \<^verbatim>\<open>execute\<close>.\<close>

record clock =
  clock_year :: nat
  clock_created :: string
  clock_sealed :: string

definition generate_next_edi :: "nat \<Rightarrow> database \<Rightarrow> string \<times> database" where
  "generate_next_edi year db =
     (let current = (case edi_sequence db (str_nat year) of None \<Rightarrow> 0 | Some n \<Rightarrow> n);
          next_seq = current + 1
      in (''EVE-'' @ str_nat year @ ''-'' @ zfill6 (str_nat next_seq),
          db\<lparr>edi_sequence := (edi_sequence db)(str_nat year \<mapsto> next_seq)\<rparr>))"

definition insert_decision :: "decision \<Rightarrow> database \<Rightarrow> database" where
  "insert_decision d db = db\<lparr>decisions := decisions db @ [d]\<rparr>"

definition get_decision :: "database \<Rightarrow> json \<Rightarrow> decision option" where
  "get_decision db ident = find (\<lambda>d. JStr (eve_decision_id d) = ident) (decisions db)"

text \<open>The loop of \<^verbatim>\<open>Database.supersede\<close>: the first decision with the id is changed.\<close>

fun supersede_first :: "json \<Rightarrow> string \<Rightarrow> decision list \<Rightarrow> decision list" where
  "supersede_first old_edi new_edi [] = []"
| "supersede_first old_edi new_edi (d # ds) =
     (if JStr (eve_decision_id d) = old_edi
      then d\<lparr>status := ''SUPERSEDED'', superseded_by := Some new_edi\<rparr> # ds
      else d # supersede_first old_edi new_edi ds)"

definition supersede :: "json \<Rightarrow> string \<Rightarrow> database \<Rightarrow> database" where
  "supersede old_edi new_edi db = db\<lparr>decisions := supersede_first old_edi new_edi (decisions db)\<rparr>"

text \<open>\<^verbatim>\<open>re.match(r"^EVE-\d{4}-\d{6}$", s)\<close>, with Python's \<^verbatim>\<open>$\<close> as above.\<close>

definition edi_body :: "string \<Rightarrow> bool" where
  "edi_body s =
     (length s = 15 \<and> take 4 s = ''EVE-'' \<and> list_all is_digit (take 4 (drop 4 s))
      \<and> s ! 8 = CHR ''-'' \<and> list_all is_digit (drop 9 s))"

definition EDI_REGEX_match :: "string \<Rightarrow> bool" where
  "EDI_REGEX_match s =
     (edi_body s \<or> (s \<noteq> [] \<and> last s = CHR 0x0A \<and> edi_body (butlast s)))"

text \<open>The decision dictionary, as \<^verbatim>\<open>json.dumps\<close> receives it.\<close>

definition decision_json :: "decision \<Rightarrow> json" where
  "decision_json d =
     JDict ([(''eve_decision_id'', JStr (eve_decision_id d)),
             (''project_id'', JStr (project_id d)),
             (''hash_version'', JStr (hash_version d)),
             (''decision_type'', JStr (decision_type d)),
             (''status'', JStr (status d)),
             (''created_at'', JStr (created_at d)),
             (''executed_by'', JList (executed_by d)),
             (''scope'', scope d),
             (''source_artifacts'', source_artifacts d),
             (''risk_links'', risk_links d),
             (''rule_set_version'', JStr (rule_set_version d)),
             (''context_hash'', JStr (context_hash d)),
             (''supersedes'', supersedes d)]
            @ (case superseded_by d of None \<Rightarrow> [] | Some b \<Rightarrow> [(''superseded_by'', JStr b)]))"

definition seal_to_vault ::
  "sha256 \<Rightarrow> string \<Rightarrow> string \<Rightarrow> string \<Rightarrow> decision \<Rightarrow> database
     \<Rightarrow> py_error + (vault_entry \<times> database)" where
  "seal_to_vault H now ident etype payload db =
     (if ident = [] \<or> \<not> EDI_REGEX_match ident then Inl ValueError
      else
        (let payload_str = json_dumps True (decision_json payload);
             phash = H payload_str;
             proof = take 32 (H (phash @ '':'' @ now @ '':EVE-VAULT-v1''));
             entry = \<lparr>entry_decision_id = ident, entry_evidence_type = etype,
                      payload_hash = phash, sealed_at = now, vault_proof = proof\<rparr>
         in Inr (entry, db\<lparr>vault := vault db @ [entry]\<rparr>)))"

definition get_vault_entry :: "database \<Rightarrow> json \<Rightarrow> vault_entry option" where
  "get_vault_entry db ident = find (\<lambda>v. JStr (entry_decision_id v) = ident) (vault db)"

fun link_first :: "json \<Rightarrow> string \<Rightarrow> artifact list \<Rightarrow> artifact list" where
  "link_first aid ident [] = []"
| "link_first aid ident (a # rest) =
     (if JStr (artifact_id a) = aid
      then a\<lparr>artifact_status := ''Executed'', artifact_decision_id := Some ident\<rparr> # rest
      else a # link_first aid ident rest)"

definition link_artifact_to_decision :: "json \<Rightarrow> string \<Rightarrow> database \<Rightarrow> database" where
  "link_artifact_to_decision aid ident db = db\<lparr>artifacts := link_first aid ident (artifacts db)\<rparr>"

section \<open>trinity\_api.py: ECLParser\<close>

definition VALID_DECISION_COMMANDS :: "string list" where
  "VALID_DECISION_COMMANDS = map command_value all_commands"

definition VALID_READ_COMMANDS :: "string list" where
  "VALID_READ_COMMANDS = [''QUERY'', ''REPLAY'', ''VERIFY'']"

text \<open>
  \<^verbatim>\<open>_parse_json\<close>. A value that is no dictionary has no \<^verbatim>\<open>get\<close>, a command that is
  no string has no \<^verbatim>\<open>upper\<close>. Every parameter key is stored, with \<^verbatim>\<open>None\<close> when
  the object lacks it.
\<close>

definition parse_json :: "json \<Rightarrow> py_error + parse_result" where
  "parse_json obj =
     (case obj of
        JDict kvs \<Rightarrow>
          (case dict_get_default kvs ''command'' (JStr []) of
             JStr c \<Rightarrow>
               (let cmd = upper c;
                    is_decision = (cmd \<in> set VALID_DECISION_COMMANDS);
                    is_read = (cmd \<in> set VALID_READ_COMMANDS)
                in if cmd = [] \<or> (\<not> is_decision \<and> \<not> is_read)
                   then Inr \<lparr>success = False, command = None,
                             parse_errors = [''Unknown command: '' @ cmd]\<rparr>
                   else
                     (let ps = map (\<lambda>k. (k, dict_get kvs k))
                                 [''system_id'', ''use_case'', ''artifacts'', ''risk_links'',
                                  ''signoff'', ''project_id'', ''eve_decision_id'',
                                  ''supersedes'', ''filters''];
                          errs = (if is_decision \<and> \<not> truthy (dict_get ps ''system_id'')
                                  then [''Missing '' @ [CHR 0x27] @ ''system_id'' @ [CHR 0x27]
                                        @ '' for decision command'']
                                  else [])
                      in Inr \<lparr>success = (errs = []),
                              command = Some \<lparr>cmd_type = (if is_decision then ''decision''
                                                            else ''read''),
                                              verb = cmd, params = ps\<rparr>,
                              parse_errors = errs\<rparr>))
           | _ \<Rightarrow> Inl AttributeError)
      | _ \<Rightarrow> Inl AttributeError)"

text \<open>
  The value of a \<^verbatim>\<open>USE_CASE\<close> line after the keyword: the text between the first
  pair of quotes when the value starts with a quoted, non-empty text, and the whole
  value otherwise.
\<close>

definition use_case_value :: "string \<Rightarrow> string" where
  "use_case_value line =
     (let t = dropWhile is_space (drop 8 line)
      in case t of
           [] \<Rightarrow> []
         | c # rest \<Rightarrow>
             (let u = takeWhile (\<lambda>x. x \<noteq> CHR 0x22) rest
              in if c = CHR 0x22 \<and> u \<noteq> [] \<and> length u < length rest then u else t))"

text \<open>The items of a comma-separated line: stripped, the empty ones dropped.\<close>

definition comma_items :: "string \<Rightarrow> json" where
  "comma_items s = JList (map JStr (filter (\<lambda>a. a \<noteq> []) (map strip (split_on CHR '','' s))))"

definition signoff_items :: "string \<Rightarrow> json" where
  "signoff_items s =
     JList (map (\<lambda>x. let y = strip x
                     in JDict [(''role'', JStr (strip (takeWhile (\<lambda>c. c \<noteq> CHR '':'') y))),
                               (''actor_id'',
                                  JStr (strip (drop 1 (dropWhile (\<lambda>c. c \<noteq> CHR '':'') y))))])
              (filter (\<lambda>x. CHR '':'' \<in> set x) (split_on CHR '','' s)))"

text \<open>One line of the body of a text command.\<close>

definition parse_body_line :: "string \<Rightarrow> dict \<Rightarrow> dict" where
  "parse_body_line line ps =
     (if startswith (upper line) ''USE_CASE '' then dict_set ''use_case'' (JStr (use_case_value line)) ps
      else if startswith (upper line) ''ARTIFACTS '' then dict_set ''artifacts'' (comma_items (drop 10 line)) ps
      else if startswith (upper line) ''RISK_LINKS '' then dict_set ''risk_links'' (comma_items (drop 11 line)) ps
      else if startswith (upper line) ''SIGNOFF '' then dict_set ''signoff'' (signoff_items (drop 8 line)) ps
      else if startswith (upper line) ''PROJECT '' then dict_set ''project_id'' (JStr (strip (drop 8 line))) ps
      else if startswith (upper line) ''SUPERSEDES '' then dict_set ''supersedes'' (JStr (strip (drop 11 line))) ps
      else ps)"

definition parse_text :: "string \<Rightarrow> parse_result" where
  "parse_text text =
     (case filter (\<lambda>l. l \<noteq> []) (map strip (split_on CHR 0x0A text)) of
        [] \<Rightarrow> \<lparr>success = False, command = None, parse_errors = [''Empty command'']\<rparr>
      | first_line # body \<Rightarrow>
          if \<not> startswith (upper first_line) ''EVE ''
          then \<lparr>success = False, command = None,
                parse_errors = [''ECL command must start with '' @ [CHR 0x27] @ ''EVE''
                                @ [CHR 0x27]]\<rparr>
          else
            (case split_ws (drop 4 first_line) of
               [] \<Rightarrow> \<lparr>success = False, command = None,
                      parse_errors = [''Missing command verb after '' @ [CHR 0x27] @ ''EVE''
                                      @ [CHR 0x27]]\<rparr>
             | p0 # parts \<Rightarrow>
                 (let vb = upper p0;
                      is_decision = (vb \<in> set VALID_DECISION_COMMANDS);
                      is_read = (vb \<in> set VALID_READ_COMMANDS)
                  in if \<not> is_decision \<and> \<not> is_read
                     then \<lparr>success = False, command = None,
                           parse_errors = [''Unknown command: '' @ vb @ ''. Valid: ''
                                           @ join '', '' (VALID_DECISION_COMMANDS
                                                          @ VALID_READ_COMMANDS)]\<rparr>
                     else
                       (let header =
                              (case parts of
                                 p1 # p2 # _ \<Rightarrow>
                                   if upper p1 = ''SYSTEM'' then [(''system_id'', JStr p2)]
                                   else if upper p1 = ''DECISION''
                                   then [(''eve_decision_id'', JStr p2)]
                                   else []
                               | _ \<Rightarrow> []);
                            ps = foldl (\<lambda>acc line. parse_body_line line acc) header body;
                            errs = (if is_decision \<and> \<not> truthy (dict_get ps ''system_id'')
                                    then [''Missing SYSTEM <id> in command header''] else [])
                        in \<lparr>success = (errs = []),
                            command = Some \<lparr>cmd_type = (if is_decision then ''decision''
                                                          else ''read''),
                                            verb = vb, params = ps\<rparr>,
                            parse_errors = errs\<rparr>))))"

text \<open>
  \<^verbatim>\<open>parse\<close>. \<^verbatim>\<open>json.loads\<close> is library code, taken as the parameter \<open>loads\<close>;
  \<open>None\<close> stands for its \<^verbatim>\<open>JSONDecodeError\<close>.
\<close>

definition parse :: "(string \<Rightarrow> json option) \<Rightarrow> string \<Rightarrow> py_error + parse_result" where
  "parse loads input_str =
     (let s = strip input_str
      in if startswith s ''{''
         then (case loads s of None \<Rightarrow> Inr (parse_text s) | Some obj \<Rightarrow> parse_json obj)
         else Inr (parse_text s))"

section \<open>trinity\_api.py: DecisionEngine\<close>

text \<open>
  What \<^verbatim>\<open>execute\<close> returns: a failure with its errors and, for a validation failure,
  its warnings; a written decision with its id, vault proof, sealing time and warnings;
  or the answer to a read command, whose data are left out.
\<close>

datatype result =
    Failed "string list" "string list option"
  | Written string string string "string list option"
  | Read_ok

fun is_success :: "result \<Rightarrow> bool" where
  "is_success (Failed errs ws) = False"
| "is_success (Written ident proof at ws) = True"
| "is_success Read_ok = True"

text \<open>The \<^verbatim>\<open>executed_by\<close> list: one entry per signoff, with its role and actor.\<close>

fun executed_by_of :: "json list \<Rightarrow> py_error + json list" where
  "executed_by_of [] = Inr []"
| "executed_by_of (s # rest) =
     (case subscript s ''role'' of
        Inl err \<Rightarrow> Inl err
      | Inr r \<Rightarrow>
          (case subscript s ''actor_id'' of
             Inl err \<Rightarrow> Inl err
           | Inr a \<Rightarrow>
               (case executed_by_of rest of
                  Inl err \<Rightarrow> Inl err
                | Inr es \<Rightarrow>
                    Inr (JDict [(''role'', r), (''actor_id'', a),
                                (''approval_method'', JStr ''explicit_signoff'')] # es))))"

text \<open>The text that is hashed into \<^verbatim>\<open>context_hash\<close>.\<close>

definition context_data :: "string \<Rightarrow> dict \<Rightarrow> string" where
  "context_data pid ps =
     json_dumps True
       (JDict [(''project_id'', JStr pid),
               (''system_id'', dict_get ps ''system_id''),
               (''use_case'', dict_get ps ''use_case''),
               (''artifacts'', dict_get ps ''artifacts''),
               (''risk_links'', dict_get ps ''risk_links''),
               (''signoff'', dict_get ps ''signoff'')])"

definition create_decision_object ::
  "sha256 \<Rightarrow> string \<Rightarrow> string \<Rightarrow> command \<Rightarrow> py_error + decision" where
  "create_decision_object H now ident cmd =
     (case normalize_project_id (dict_get (params cmd) ''project_id'') of
        Inl err \<Rightarrow> Inl err
      | Inr (pid, hv) \<Rightarrow>
          (let rules_hash = take 8 (H (json_dumps True VALIDATION_RULES_json))
           in case ECLDecisionCommand (verb cmd) of
                None \<Rightarrow> Inl ValueError
              | Some cmd_enum \<Rightarrow>
                  (case py_iter (dict_get_default (params cmd) ''signoff'' (JList [])) of
                     Inl err \<Rightarrow> Inl err
                   | Inr signoffs \<Rightarrow>
                       (case executed_by_of signoffs of
                          Inl err \<Rightarrow> Inl err
                        | Inr eb \<Rightarrow>
                            Inr \<lparr>eve_decision_id = ident,
                                 project_id = pid,
                                 hash_version = hv,
                                 decision_type = COMMAND_TO_DECISION_TYPE cmd_enum,
                                 status = ''EXECUTED'',
                                 created_at = now,
                                 executed_by = eb,
                                 scope = JDict [(''system_id'',
                                                   dict_get_default (params cmd) ''system_id''
                                                     (JStr [])),
                                                (''use_case'',
                                                   dict_get_default (params cmd) ''use_case''
                                                     (JStr []))],
                                 source_artifacts =
                                   dict_get_default (params cmd) ''artifacts'' (JList []),
                                 risk_links = dict_get (params cmd) ''risk_links'',
                                 rule_set_version = ''eve-ruleset-v1.0-'' @ rules_hash,
                                 context_hash = H (context_data pid (params cmd)),
                                 supersedes = dict_get (params cmd) ''supersedes'',
                                 superseded_by = None\<rparr>))))"

definition execute_supersede ::
  "sha256 \<Rightarrow> clock \<Rightarrow> command \<Rightarrow> string list \<Rightarrow> database
     \<Rightarrow> (py_error + result) \<times> database" where
  "execute_supersede H clk cmd ws db =
     (case map_of (params cmd) ''supersedes'' of
        None \<Rightarrow> (Inl KeyError, db)
      | Some target \<Rightarrow>
          (case get_decision db target of
             None \<Rightarrow> (Inr (Failed [''Decision not found: '' @ py_str target] None), db)
           | Some original \<Rightarrow>
               if status original \<noteq> ''EXECUTED''
               then (Inr (Failed [''Cannot supersede '' @ status original @ '' decision''] None),
                     db)
               else
                 (let (ident, db1) = generate_next_edi (clock_year clk) db
                  in case create_decision_object H (clock_created clk) ident cmd of
                       Inl err \<Rightarrow> (Inl err, db1)
                     | Inr decision_obj \<Rightarrow>
                         (let db2 = insert_decision decision_obj db1;
                              db3 = supersede target ident db2
                          in case seal_to_vault H (clock_sealed clk) ident ''DECISION''
                                    decision_obj db3 of
                               Inl err \<Rightarrow> (Inl err, db3)
                             | Inr (entry, db4) \<Rightarrow>
                                 (Inr (Written ident (vault_proof entry) (sealed_at entry)
                                         (Some ((''Superseded: '' @ py_str target) # ws))),
                                  db4)))))"

definition execute_decision ::
  "sha256 \<Rightarrow> clock \<Rightarrow> command \<Rightarrow> string list \<Rightarrow> database
     \<Rightarrow> (py_error + result) \<times> database" where
  "execute_decision H clk cmd ws db =
     (if truthy (dict_get (params cmd) ''supersedes'') then execute_supersede H clk cmd ws db
      else
        (let (ident, db1) = generate_next_edi (clock_year clk) db
         in case create_decision_object H (clock_created clk) ident cmd of
              Inl err \<Rightarrow> (Inl err, db1)
            | Inr decision_obj \<Rightarrow>
                (let db2 = insert_decision decision_obj db1
                 in case seal_to_vault H (clock_sealed clk) ident ''DECISION'' decision_obj db2 of
                      Inl err \<Rightarrow> (Inl err, db2)
                    | Inr (entry, db3) \<Rightarrow>
                        (case py_iter (dict_get_default (params cmd) ''artifacts'' (JList [])) of
                           Inl err \<Rightarrow> (Inl err, db3)
                         | Inr aids \<Rightarrow>
                             (Inr (Written ident (vault_proof entry) (sealed_at entry)
                                     (if ws = [] then None else Some ws)),
                              foldl (\<lambda>d aid. link_artifact_to_decision aid ident d) db3 aids)))))"

text \<open>The read commands look decisions up and change nothing.\<close>

definition execute_read :: "command \<Rightarrow> database \<Rightarrow> result" where
  "execute_read cmd db =
     (if verb cmd = ''REPLAY''
      then (case get_decision db (dict_get (params cmd) ''eve_decision_id'') of
              None \<Rightarrow> Failed [''Decision not found: ''
                                @ py_str (dict_get (params cmd) ''eve_decision_id'')] None
            | Some d \<Rightarrow> Read_ok)
      else if verb cmd = ''VERIFY'' then Read_ok
      else if verb cmd = ''QUERY'' then Read_ok
      else Failed [''Unknown read command: '' @ verb cmd] None)"

text \<open>
  The project id of the request, when there is one, replaces the one of the command
  (\<^verbatim>\<open>command["params"]["project_id"] = project_id\<close>).
\<close>

definition request_command :: "command \<Rightarrow> string option \<Rightarrow> command" where
  "request_command cmd0 pid =
     (case pid of
        None \<Rightarrow> cmd0
      | Some p \<Rightarrow> cmd0\<lparr>params := dict_set ''project_id'' (JStr p) (params cmd0)\<rparr>)"

text \<open>
  \<^verbatim>\<open>execute\<close>, from the parsed command on: read commands are answered, decision
  commands are validated and then executed.
\<close>

definition execute_command ::
  "sha256 \<Rightarrow> clock \<Rightarrow> parse_result \<Rightarrow> string option \<Rightarrow> database
     \<Rightarrow> (py_error + result) \<times> database" where
  "execute_command H clk parsed pid db =
     (if \<not> success parsed then (Inr (Failed (parse_errors parsed) None), db)
      else
        (case command parsed of
           None \<Rightarrow> (Inl KeyError, db)
         | Some cmd0 \<Rightarrow>
             (let cmd = request_command cmd0 pid
              in if cmd_type cmd = ''read'' then (Inr (execute_read cmd db), db)
                 else
                   (case validate cmd of
                      Inl err \<Rightarrow> (Inl err, db)
                    | Inr v \<Rightarrow>
                        if \<not> valid v then (Inr (Failed (errors v) (Some (warnings v))), db)
                        else execute_decision H clk cmd (warnings v) db))))"

definition execute ::
  "sha256 \<Rightarrow> (string \<Rightarrow> json option) \<Rightarrow> clock \<Rightarrow> string \<Rightarrow> string option \<Rightarrow> database
     \<Rightarrow> (py_error + result) \<times> database" where
  "execute H loads clk ecl_input pid db =
     (case parse loads ecl_input of
        Inl err \<Rightarrow> (Inl err, db)
      | Inr parsed \<Rightarrow> execute_command H clk parsed pid db)"

section \<open>Auxiliary notions\<close>

text \<open>The sequence number that the next allocation in a year hands out.\<close>

definition allocated_seq :: "nat \<Rightarrow> database \<Rightarrow> nat" where
  "allocated_seq year db = (case edi_sequence db (str_nat year) of None \<Rightarrow> 0 | Some n \<Rightarrow> n) + 1"

text \<open>The sequence numbers handed out by successive allocations, one per listed year.\<close>

fun allocations :: "nat list \<Rightarrow> database \<Rightarrow> nat list" where
  "allocations [] db = []"
| "allocations (y # ys) db = allocated_seq y db # allocations ys (snd (generate_next_edi y db))"

text \<open>Reading a decimal numeral, and undoing a two-character escape.\<close>

definition nat_of_string :: "string \<Rightarrow> nat" where
  "nat_of_string s = foldl (\<lambda>acc c. 10 * acc + ((of_char c :: nat) - 48)) 0 s"

definition unescape2 :: "char \<Rightarrow> char" where
  "unescape2 q =
     (if q = CHR ''n'' then CHR 0x0A
      else if q = CHR ''r'' then CHR 0x0D
      else if q = CHR ''t'' then CHR 0x09
      else if q = CHR ''b'' then CHR 0x08
      else if q = CHR ''f'' then CHR 0x0C
      else q)"

text \<open>A text that does not begin with a digit, and JSON values whose dictionaries are in key order.\<close>

definition no_digit_hd :: "string \<Rightarrow> bool" where
  "no_digit_hd r = (case r of [] \<Rightarrow> True | c # _ \<Rightarrow> \<not> is_digit c)"

fun sorted_json :: "json \<Rightarrow> bool" where
  "sorted_json (JList xs) = list_all sorted_json xs"
| "sorted_json (JDict kvs) = (sorted (map fst kvs) \<and> list_all (\<lambda>(k, v). sorted_json v) kvs)"
| "sorted_json v = True"

fun canon :: "json \<Rightarrow> json" where
  "canon (JList xs) = JList (map canon xs)"
| "canon (JDict kvs) = JDict (sort_key fst (map (\<lambda>(k, v). (k, canon v)) kvs))"
| "canon v = v"

text \<open>
  The JSON value with every dictionary in the order of its keys, and the canonical
  value of a Python content: what \<^verbatim>\<open>json.dumps\<close> with \<^verbatim>\<open>sort_keys=True\<close> writes,
  before it becomes text.
\<close>

definition canonical :: "py \<Rightarrow> py_error + json" where
  "canonical v = (case to_json v of Inl err \<Rightarrow> Inl err | Inr j \<Rightarrow> Inr (canon j))"

definition serialisable :: "py \<Rightarrow> bool" where
  "serialisable v = (case to_json v of Inl err \<Rightarrow> False | Inr j \<Rightarrow> True)"

text \<open>
  A run of \<^verbatim>\<open>seal\<close> calls, each with its clock reading, fresh id, evidence type,
  content and metadata. A call that raises leaves the ledger as it was.
\<close>

type_synonym seal_call = "string \<times> string \<times> evidence_type \<times> py \<times> json option"

fun seals :: "sha256 \<Rightarrow> seal_call list \<Rightarrow> xvault \<Rightarrow> xvault" where
  "seals H [] v = v"
| "seals H ((now, uuid, etype, cont, meta) # calls) v =
     seals H calls
       (case seal H now uuid etype cont meta v of Inl err \<Rightarrow> v | Inr (e, v') \<Rightarrow> v')"






text \<open>
  The words of the specification for \<^verbatim>\<open>verify_evidence\<close>. The content re-hashes to
  the stored hash; and the stored path, a list of \<^verbatim>\<open>hash:position\<close> items, replays
  from the stored hash to a root: each step combines the current hash with the sibling
  on the recorded side and hashes the result.
\<close>

definition rehashes :: "sha256 \<Rightarrow> evidence_object \<Rightarrow> bool" where
  "rehashes H e =
     (case to_json (content e) of
        Inl err \<Rightarrow> False
      | Inr j \<Rightarrow> H (json_dumps False j) = content_hash e)"

definition well_formed_item :: "string \<Rightarrow> bool" where
  "well_formed_item item = (length (filter (\<lambda>c. c = CHR '':'') item) = 1)"

definition replay_step :: "sha256 \<Rightarrow> string \<Rightarrow> string \<Rightarrow> string" where
  "replay_step H current item =
     (let sibling = takeWhile (\<lambda>c. c \<noteq> CHR '':'') item;
          position = drop (length sibling + 1) item
      in H (if position = ''right'' then current @ sibling else sibling @ current))"

definition replays :: "sha256 \<Rightarrow> evidence_object \<Rightarrow> string \<Rightarrow> bool" where
  "replays H e rt =
     (list_all well_formed_item (merkle_path e)
      \<and> foldl (replay_step H) (content_hash e) (merkle_path e) = rt)"

section \<open>Verification: numerals and identifiers\<close>

lemma of_char_digit: "d < 10 \<Longrightarrow> (of_char (digit_char d) :: nat) = 48 + d"
  by (simp add: digit_char_def)

lemma nat_of_string_snoc: "nat_of_string (s @ [c]) = 10 * nat_of_string s + ((of_char c :: nat) - 48)"
  by (simp add: nat_of_string_def)

lemma nat_of_str_nat: "nat_of_string (str_nat n) = n"
proof (induction n rule: less_induct)
  case (less n)
  show ?case
  proof (cases "n < 10")
    case True
    then show ?thesis
      by (simp add: str_nat.simps [of n] nat_of_string_def of_char_digit)
  next
    case False
    then have "nat_of_string (str_nat (n div 10)) = n div 10"
      using less.IH [of "n div 10"] by simp
    with False show ?thesis
      by (simp add: str_nat.simps [of n] nat_of_string_snoc of_char_digit)
  qed
qed

lemma str_nat_inj: "str_nat a = str_nat b \<Longrightarrow> a = b"
  by (metis nat_of_str_nat)

lemma nat_of_string_zeros: "nat_of_string (replicate k CHR ''0'' @ s) = nat_of_string s"
  by (induction k) (simp_all add: nat_of_string_def)

lemma zfill6_inj: "zfill6 (str_nat a) = zfill6 (str_nat b) \<Longrightarrow> a = b"
  by (metis nat_of_str_nat nat_of_string_zeros zfill6_def)

lemma str_nat_digits: "list_all is_digit (str_nat n)"
proof (induction n rule: less_induct)
  case (less n)
  have d: "is_digit (digit_char k)" if "k < 10" for k
    using that by (simp add: is_digit_def digit_char_def less_eq_char_def)
  show ?case
  proof (cases "n < 10")
    case True
    then show ?thesis by (simp add: str_nat.simps [of n] d)
  next
    case False
    then show ?thesis
      using less.IH [of "n div 10"] by (simp add: str_nat.simps [of n] d)
  qed
qed

lemma sep_split:
  "CHR ''-'' \<notin> set a \<Longrightarrow> CHR ''-'' \<notin> set a' \<Longrightarrow> a @ CHR ''-'' # b = a' @ CHR ''-'' # b' \<Longrightarrow> a = a' \<and> b = b'"
proof (induction a arbitrary: a')
  case Nil
  then show ?case by (cases a') auto
next
  case (Cons x a)
  then show ?case by (cases a') auto
qed

lemma str_nat_no_dash: "CHR ''-'' \<notin> set (str_nat n)"
  using str_nat_digits [of n] by (auto simp: list_all_iff is_digit_def)

lemma edi_inj:
  "''EVE-'' @ str_nat y @ ''-'' @ zfill6 (str_nat n) = ''EVE-'' @ str_nat y' @ ''-'' @ zfill6 (str_nat n')
   \<Longrightarrow> y = y' \<and> n = n'"
  using sep_split [OF str_nat_no_dash str_nat_no_dash, of y "zfill6 (str_nat n)" y' "zfill6 (str_nat n')"]
  by (auto dest: str_nat_inj zfill6_inj)

section \<open>Verification: JSON text\<close>

lemma of_char_hex: "d < 16 \<Longrightarrow> (of_char (hex_char d) :: nat) = (if d < 10 then 48 + d else 87 + d)"
  by (simp add: hex_char_def)

lemma hex_char_inj: "a < 16 \<Longrightarrow> b < 16 \<Longrightarrow> hex_char a = hex_char b \<Longrightarrow> a = b"
proof -
  assume a: "a < 16" and b: "b < 16" and e: "hex_char a = hex_char b"
  from e have "(of_char (hex_char a) :: nat) = of_char (hex_char b)" by simp
  with a b show "a = b" by (simp add: of_char_hex split: if_splits)
qed

lemma hex_pair_inj:
  assumes "hex_char ((of_char c :: nat) div 16) = hex_char ((of_char d :: nat) div 16)"
    and "hex_char ((of_char c :: nat) mod 16) = hex_char ((of_char d :: nat) mod 16)"
  shows "c = d"
proof -
  have c: "(of_char c :: nat) < 256" and d: "(of_char d :: nat) < 256"
    by (simp_all add: of_char_def)
  have "(of_char c :: nat) div 16 < 16"
    using c by arith
  moreover have "(of_char d :: nat) div 16 < 16"
    using d by arith
  ultimately have q: "(of_char c :: nat) div 16 = (of_char d :: nat) div 16"
    using assms(1) by (rule hex_char_inj)
  have "(of_char c :: nat) mod 16 = (of_char d :: nat) mod 16"
    using assms(2) by (intro hex_char_inj) simp_all
  with q have "(of_char c :: nat) = of_char d"
    by (metis div_mult_mod_eq)
  then show ?thesis by simp
qed

lemma escape_char_cases:
  "(\<exists>q. escape_char ea c = [CHR 0x5C, q] \<and> q \<noteq> CHR ''u'' \<and> c = unescape2 q)
   \<or> escape_char ea c = [CHR 0x5C, CHR ''u'', CHR ''0'', CHR ''0'',
            hex_char ((of_char c :: nat) div 16), hex_char ((of_char c :: nat) mod 16)]
   \<or> (escape_char ea c = [c] \<and> c \<noteq> CHR 0x5C)"
  by (simp add: escape_char_def unescape2_def)

lemma escape_char_prefix:
  assumes "escape_char ea c @ x = escape_char ea d @ y"
  shows "c = d \<and> x = y"
  using escape_char_cases [of ea c] escape_char_cases [of ea d] assms
  by (auto dest: hex_pair_inj)

lemma escape_concat_inj:
  "concat (map (escape_char ea) s) @ x = concat (map (escape_char ea) t) @ x \<Longrightarrow> s = t"
proof (induction s arbitrary: t)
  case Nil
  then show ?case
    using escape_char_cases [of ea "hd t"] by (cases t) auto
next
  case (Cons c s)
  show ?case
  proof (cases t)
    case Nil
    with Cons.prems show ?thesis
      using escape_char_cases [of ea c] by auto
  next
    case (Cons d t')
    with Cons.prems have "escape_char ea c @ (concat (map (escape_char ea) s) @ x)
        = escape_char ea d @ (concat (map (escape_char ea) t') @ x)"
      by simp
    then have "c = d \<and> concat (map (escape_char ea) s) @ x = concat (map (escape_char ea) t') @ x"
      by (rule escape_char_prefix)
    with Cons.IH [of t'] Cons show ?thesis by simp
  qed
qed

lemma dumps_str_inj: "dumps_str ea s = dumps_str ea t \<Longrightarrow> s = t"
  using escape_concat_inj [of ea s "[CHR 0x22]" t] by (simp add: dumps_str_def)

lemma dict_get_set_other: "k' \<noteq> k \<Longrightarrow> dict_get (dict_set k v d) k' = dict_get d k'"
  by (induction d) (auto simp: dict_get_def)

lemma dict_get_set_same: "dict_get (dict_set k v d) k = v"
  by (induction d) (auto simp: dict_get_def)

lemma map_of_set_other: "k' \<noteq> k \<Longrightarrow> map_of (dict_set k v d) k' = map_of d k'"
  by (induction d) auto

lemma context_data_shape:
  "context_data pid ps =
     ''{'' @ dumps_str True ''artifacts'' @ '': '' @ json_dumps True (dict_get ps ''artifacts'') @ '', ''
     @ dumps_str True ''project_id'' @ '': '' @ dumps_str True pid @ '', ''
     @ dumps_str True ''risk_links'' @ '': '' @ json_dumps True (dict_get ps ''risk_links'') @ '', ''
     @ dumps_str True ''signoff'' @ '': '' @ json_dumps True (dict_get ps ''signoff'') @ '', ''
     @ dumps_str True ''system_id'' @ '': '' @ json_dumps True (dict_get ps ''system_id'') @ '', ''
     @ dumps_str True ''use_case'' @ '': '' @ json_dumps True (dict_get ps ''use_case'') @ ''}''"
  by (simp add: context_data_def)

lemma context_data_inj:
  assumes "context_data p ps = context_data q ps"
  shows "p = q"
proof -
  from assms have "dumps_str True p = dumps_str True q"
    unfolding context_data_shape by simp
  then show ?thesis by (rule dumps_str_inj)
qed

text \<open>The canonical text of a JSON value can be read back in one way only.\<close>

lemma not_digit_chars:
  "\<not> is_digit CHR ''-''" "\<not> is_digit CHR '']''" "\<not> is_digit CHR ''}''" "\<not> is_digit CHR '',''"
  "\<not> is_digit CHR ''n''" "\<not> is_digit CHR ''t''" "\<not> is_digit CHR ''f''" "\<not> is_digit CHR 0x22"
  "\<not> is_digit CHR ''[''" "\<not> is_digit CHR ''{''"
  by (simp_all add: is_digit_def less_eq_char_def)

lemma digits_span:
  "list_all is_digit s \<Longrightarrow> list_all is_digit t \<Longrightarrow> no_digit_hd r \<Longrightarrow> no_digit_hd r' \<Longrightarrow>
   s @ r = t @ r' \<Longrightarrow> s = t \<and> r = r'"
proof (induction s arbitrary: t)
  case Nil
  then show ?case by (cases t) (auto simp: no_digit_hd_def)
next
  case (Cons c s)
  then show ?case by (cases t) (auto simp: no_digit_hd_def)
qed

lemma str_nat_hd: "\<exists>c cs. str_nat n = c # cs \<and> is_digit c"
proof -
  have "str_nat n \<noteq> []"
    by (simp add: str_nat.simps [of n])
  then obtain c cs where "str_nat n = c # cs"
    by (cases "str_nat n") auto
  moreover have "list_all is_digit (str_nat n)"
    by (rule str_nat_digits)
  ultimately show ?thesis by auto
qed

lemma str_int_hd: "\<exists>c cs. str_int i = c # cs \<and> (is_digit c \<or> c = CHR ''-'')"
  using str_nat_hd [of "nat i"] by (auto simp: str_int_def)

lemma str_nat_prefix:
  "no_digit_hd r \<Longrightarrow> no_digit_hd r' \<Longrightarrow> str_nat a @ r = str_nat b @ r' \<Longrightarrow> a = b \<and> r = r'"
  using digits_span [OF str_nat_digits str_nat_digits, of r r' a b] by (auto dest: str_nat_inj)

lemma str_int_prefix:
  assumes "no_digit_hd r" and "no_digit_hd r'" and eq: "str_int i @ r = str_int j @ r'"
  shows "i = j \<and> r = r'"
proof (cases "i < 0")
  case True
  note i = this
  show ?thesis
  proof (cases "j < 0")
    case True
    with i eq have "str_nat (nat (- i)) @ r = str_nat (nat (- j)) @ r'"
      by (simp add: str_int_def)
    then have "nat (- i) = nat (- j) \<and> r = r'"
      by (rule str_nat_prefix [OF assms(1,2)])
    with i True show ?thesis by auto
  next
    case False
    obtain c cs where "str_nat (nat j) = c # cs" "is_digit c"
      using str_nat_hd by blast
    with i False eq show ?thesis
      by (auto simp: str_int_def not_digit_chars)
  qed
next
  case False
  note i = this
  show ?thesis
  proof (cases "j < 0")
    case True
    obtain c cs where "str_nat (nat i) = c # cs" "is_digit c"
      using str_nat_hd by blast
    with i True eq show ?thesis
      by (auto simp: str_int_def not_digit_chars)
  next
    case False
    with i eq have "str_nat (nat i) @ r = str_nat (nat j) @ r'"
      by (simp add: str_int_def)
    then have "nat i = nat j \<and> r = r'"
      by (rule str_nat_prefix [OF assms(1,2)])
    with i False show ?thesis by auto
  qed
qed

lemma escape_char_hd: "\<exists>x xs. escape_char ea c = x # xs \<and> x \<noteq> CHR 0x22"
  by (simp add: escape_char_def)

lemma escaped_prefix:
  "concat (map (escape_char ea) s) @ CHR 0x22 # r = concat (map (escape_char ea) t) @ CHR 0x22 # r'
   \<Longrightarrow> s = t \<and> r = r'"
proof (induction s arbitrary: t)
  case Nil
  show ?case
  proof (cases t)
    case Nil
    with Nil.prems show ?thesis by simp
  next
    case (Cons d t')
    obtain x xs where "escape_char ea d = x # xs" "x \<noteq> CHR 0x22"
      using escape_char_hd by blast
    with Nil.prems Cons show ?thesis by auto
  qed
next
  case (Cons c s)
  show ?case
  proof (cases t)
    case Nil
    obtain x xs where "escape_char ea c = x # xs" "x \<noteq> CHR 0x22"
      using escape_char_hd by blast
    with Cons.prems Nil show ?thesis by auto
  next
    case (Cons d t')
    with Cons.prems have "escape_char ea c @ (concat (map (escape_char ea) s) @ CHR 0x22 # r)
        = escape_char ea d @ (concat (map (escape_char ea) t') @ CHR 0x22 # r')"
      by simp
    then have "c = d \<and> concat (map (escape_char ea) s) @ CHR 0x22 # r
        = concat (map (escape_char ea) t') @ CHR 0x22 # r'"
      by (rule escape_char_prefix)
    with Cons.IH [of t'] Cons show ?thesis by simp
  qed
qed

lemma dumps_str_prefix: "dumps_str ea s @ r = dumps_str ea t @ r' \<Longrightarrow> s = t \<and> r = r'"
  using escaped_prefix [of ea s r t r'] by (simp add: dumps_str_def)

lemma dumps_str_hd: "\<exists>cs. dumps_str ea s = CHR 0x22 # cs"
  by (simp add: dumps_str_def)

lemma join_append:
  "join sep (x # xs) @ r = x @ (if xs = [] then r else sep @ join sep xs @ r)"
  by (cases xs) auto

lemma join_prefix:
  fixes w :: "'a \<Rightarrow> string"
  assumes elems: "\<And>x y s s'. x \<in> set xs \<Longrightarrow> y \<in> set ys \<Longrightarrow> no_digit_hd s \<Longrightarrow> no_digit_hd s' \<Longrightarrow>
                    w x @ s = w y @ s' \<Longrightarrow> x = y \<and> s = s'"
    and hd: "\<And>y. y \<in> set xs \<union> set ys \<Longrightarrow> \<exists>c cs. w y = c # cs \<and> c \<noteq> close"
    and close: "\<not> is_digit close" "close \<noteq> CHR '',''"
    and eq: "join '', '' (map w xs) @ close # r = join '', '' (map w ys) @ close # r'"
  shows "xs = ys \<and> r = r'"
  using elems hd eq
proof (induction xs arbitrary: ys)
  case Nil
  show ?case
  proof (cases ys)
    case Nil
    with Nil.prems(3) show ?thesis by simp
  next
    case (Cons y ys')
    obtain c cs where "w y = c # cs" "c \<noteq> close"
      using Nil.prems(2) [of y] Cons by auto
    with Nil.prems(3) Cons show ?thesis
      by (simp add: join_append del: join.simps(2,3))
  qed
next
  case (Cons x xs)
  show ?case
  proof (cases ys)
    case Nil
    obtain c cs where "w x = c # cs" "c \<noteq> close"
      using Cons.prems(2) [of x] by auto
    with Cons.prems(3) Nil show ?thesis
      by (simp add: join_append del: join.simps(2,3))
  next
    case ys: (Cons y ys')
    let ?T = "if xs = [] then close # r else '', '' @ join '', '' (map w xs) @ close # r"
    let ?T' = "if ys' = [] then close # r' else '', '' @ join '', '' (map w ys') @ close # r'"
    have eq': "w x @ ?T = w y @ ?T'"
      using Cons.prems(3) ys by (simp add: join_append del: join.simps(2,3))
    have "no_digit_hd ?T" "no_digit_hd ?T'"
      using close by (simp_all add: no_digit_hd_def not_digit_chars)
    then have xy: "x = y \<and> ?T = ?T'"
      using Cons.prems(1) [of x y ?T ?T'] eq' ys by simp
    show ?thesis
    proof (cases "xs = []")
      case True
      with xy close ys show ?thesis by (auto split: if_splits)
    next
      case False
      with xy close have ne: "ys' \<noteq> []" by (auto split: if_splits)
      with xy False have "join '', '' (map w xs) @ close # r = join '', '' (map w ys') @ close # r'"
        by simp
      then have "xs = ys' \<and> r = r'"
        using Cons.IH [of ys'] Cons.prems(1,2) ys by auto
      with xy ys show ?thesis by simp
    qed
  qed
qed

lemma json_dumps_sorted_dict:
  assumes "sorted (map fst kvs)"
  shows "json_dumps ea (JDict kvs)
         = CHR ''{'' # join '', '' (map (\<lambda>(k, v). dumps_str ea k @ '': '' @ json_dumps ea v) kvs) @ ''}''"
proof -
  have "map fst (map (\<lambda>(k, v). (k, json_dumps ea v)) kvs) = map fst kvs"
    by (induction kvs) auto
  with assms have "sorted (map fst (map (\<lambda>(k, v). (k, json_dumps ea v)) kvs))"
    by (simp only:)
  then have a: "sort_key fst (map (\<lambda>(k, v). (k, json_dumps ea v)) kvs)
      = map (\<lambda>(k, v). (k, json_dumps ea v)) kvs"
    by (rule sort_key_id_if_sorted)
  have b: "map (\<lambda>(k, s). dumps_str ea k @ '': '' @ s) (map (\<lambda>(k, v). (k, json_dumps ea v)) kvs)
      = map (\<lambda>(k, v). dumps_str ea k @ '': '' @ json_dumps ea v) kvs"
    by (induction kvs) auto
  have "json_dumps ea (JDict kvs)
      = ''{'' @ join '', '' (map (\<lambda>(k, s). dumps_str ea k @ '': '' @ s)
                 (sort_key fst (map (\<lambda>(k, v). (k, json_dumps ea v)) kvs))) @ ''}''"
    by (simp only: json_dumps.simps)
  also have "\<dots> = ''{'' @ join '', '' (map (\<lambda>(k, v). dumps_str ea k @ '': '' @ json_dumps ea v) kvs) @ ''}''"
    by (simp only: a b)
  finally show ?thesis by simp
qed

lemma json_dumps_hd:
  "\<exists>c cs. json_dumps ea j = c # cs \<and>
     (case j of JNull \<Rightarrow> c = CHR ''n''
      | JBool b \<Rightarrow> c = CHR ''t'' \<or> c = CHR ''f''
      | JInt i \<Rightarrow> is_digit c \<or> c = CHR ''-''
      | JStr s \<Rightarrow> c = CHR 0x22
      | JList xs \<Rightarrow> c = CHR ''[''
      | JDict kvs \<Rightarrow> c = CHR ''{'')"
  using str_int_hd dumps_str_hd by (cases j) (auto simp: )

lemma same_kind:
  assumes "json_dumps ea a @ r = json_dumps ea b @ r'"
  shows "(case a of JNull \<Rightarrow> b = JNull
          | JBool x \<Rightarrow> (\<exists>y. b = JBool y)
          | JInt i \<Rightarrow> (\<exists>j. b = JInt j)
          | JStr s \<Rightarrow> (\<exists>t. b = JStr t)
          | JList xs \<Rightarrow> (\<exists>ys. b = JList ys)
          | JDict kvs \<Rightarrow> (\<exists>kvs'. b = JDict kvs'))"
proof -
  obtain c cs where a: "json_dumps ea a = c # cs"
      "(case a of JNull \<Rightarrow> c = CHR ''n''
      | JBool b \<Rightarrow> c = CHR ''t'' \<or> c = CHR ''f''
      | JInt i \<Rightarrow> is_digit c \<or> c = CHR ''-''
      | JStr s \<Rightarrow> c = CHR 0x22
      | JList xs \<Rightarrow> c = CHR ''[''
      | JDict kvs \<Rightarrow> c = CHR ''{'')"
    using json_dumps_hd [of ea a] by blast
  obtain d ds where b: "json_dumps ea b = d # ds"
      "(case b of JNull \<Rightarrow> d = CHR ''n''
      | JBool b \<Rightarrow> d = CHR ''t'' \<or> d = CHR ''f''
      | JInt i \<Rightarrow> is_digit d \<or> d = CHR ''-''
      | JStr s \<Rightarrow> d = CHR 0x22
      | JList xs \<Rightarrow> d = CHR ''[''
      | JDict kvs \<Rightarrow> d = CHR ''{'')"
    using json_dumps_hd [of ea b] by blast
  from assms a(1) b(1) have "c = d" by simp
  with a(2) b(2) show ?thesis
    by (cases a; cases b) (auto simp: not_digit_chars)
qed

lemma json_dumps_not_close:
  "\<exists>c cs. json_dumps ea y = c # cs \<and> c \<noteq> CHR '']''"
  using json_dumps_hd [of ea y] by (cases y) (auto simp: not_digit_chars)

lemma json_dumps_prefix:
  "sorted_json a \<Longrightarrow> sorted_json b \<Longrightarrow> no_digit_hd r \<Longrightarrow> no_digit_hd r' \<Longrightarrow>
   json_dumps ea a @ r = json_dumps ea b @ r' \<Longrightarrow> a = b \<and> r = r'"
proof (induction a arbitrary: b r r')
  case JNull
  with same_kind [OF JNull.prems(5)] show ?case by simp
next
  case (JBool x)
  obtain y where "b = JBool y"
    using same_kind [OF JBool.prems(5)] by auto
  with JBool.prems(5) show ?case by (auto split: if_splits)
next
  case (JInt i)
  obtain j where "b = JInt j"
    using same_kind [OF JInt.prems(5)] by auto
  with JInt.prems show ?case
    using str_int_prefix [of r r' i j] by simp
next
  case (JStr s)
  obtain t where "b = JStr t"
    using same_kind [OF JStr.prems(5)] by auto
  with JStr.prems show ?case
    using dumps_str_prefix [of ea s r t r'] by simp
next
  case (JList xs)
  obtain ys where b: "b = JList ys"
    using same_kind [OF JList.prems(5)] by auto
  have eq: "join '', '' (map (json_dumps ea) xs) @ CHR '']'' # r
      = join '', '' (map (json_dumps ea) ys) @ CHR '']'' # r'"
    using JList.prems(5) b by simp
  have "xs = ys \<and> r = r'"
  proof (rule join_prefix [where w = "json_dumps ea" and close = "CHR '']''"])
    fix x y s s'
    assume xy: "x \<in> set xs" "y \<in> set ys" and s: "no_digit_hd s" "no_digit_hd s'"
      and e: "json_dumps ea x @ s = json_dumps ea y @ s'"
    have "sorted_json x" "sorted_json y"
      using JList.prems(1,2) b xy by (auto simp: list_all_iff)
    then show "x = y \<and> s = s'"
      using JList.IH [of x y s s'] xy s e by simp
  next
    fix y
    show "\<exists>c cs. json_dumps ea y = c # cs \<and> c \<noteq> CHR '']''"
      by (rule json_dumps_not_close)
  next
    show "\<not> is_digit CHR '']''" by (simp add: not_digit_chars)
  next
    show "CHR '']'' \<noteq> CHR '',''" by simp
  next
    show "join '', '' (map (json_dumps ea) xs) @ CHR '']'' # r
      = join '', '' (map (json_dumps ea) ys) @ CHR '']'' # r'"
      by (rule eq)
  qed
  with b show ?case by simp
next
  case (JDict kvs)
  obtain kvs' where b: "b = JDict kvs'"
    using same_kind [OF JDict.prems(5)] by auto
  let ?w = "\<lambda>(k, v). dumps_str ea k @ '': '' @ json_dumps ea v"
  have s1: "sorted (map fst kvs)" and s2: "sorted (map fst kvs')"
    using JDict.prems(1,2) b by simp_all
  have eq: "join '', '' (map ?w kvs) @ CHR ''}'' # r = join '', '' (map ?w kvs') @ CHR ''}'' # r'"
    using JDict.prems(5) unfolding b json_dumps_sorted_dict [OF s1] json_dumps_sorted_dict [OF s2]
    by simp
  have "kvs = kvs' \<and> r = r'"
  proof (rule join_prefix [where w = ?w and close = "CHR ''}''"])
    fix x y s s'
    assume xy: "x \<in> set kvs" "y \<in> set kvs'" and s: "no_digit_hd s" "no_digit_hd s'"
      and e: "?w x @ s = ?w y @ s'"
    obtain k v where x: "x = (k, v)" by (cases x)
    obtain k' v' where y: "y = (k', v')" by (cases y)
    have sv: "sorted_json v" "sorted_json v'"
      using JDict.prems(1,2) b xy x y by (auto simp: list_all_iff)
    from e x y have "dumps_str ea k @ ('': '' @ json_dumps ea v @ s)
        = dumps_str ea k' @ ('': '' @ json_dumps ea v' @ s')"
      by simp
    then have kk: "k = k' \<and> '': '' @ json_dumps ea v @ s = '': '' @ json_dumps ea v' @ s'"
      by (rule dumps_str_prefix)
    then have "json_dumps ea v @ s = json_dumps ea v' @ s'"
      by simp
    then have "v = v' \<and> s = s'"
      using JDict.IH [of x v v' s s'] xy x sv s by simp
    with kk x y show "x = y \<and> s = s'" by simp
  next
    fix y :: "string \<times> json"
    obtain k v where y: "y = (k, v)" by (cases y)
    obtain cs where "dumps_str ea k = CHR 0x22 # cs"
      using dumps_str_hd by blast
    with y show "\<exists>c cs. ?w y = c # cs \<and> c \<noteq> CHR ''}''"
      by simp
  next
    show "\<not> is_digit CHR ''}''" by (simp add: not_digit_chars)
  next
    show "CHR ''}'' \<noteq> CHR '',''" by simp
  next
    show "join '', '' (map ?w kvs) @ CHR ''}'' # r = join '', '' (map ?w kvs') @ CHR ''}'' # r'"
      by (rule eq)
  qed
  with b show ?case by simp
qed

lemma json_dumps_inj_sorted:
  "sorted_json a \<Longrightarrow> sorted_json b \<Longrightarrow> json_dumps ea a = json_dumps ea b \<Longrightarrow> a = b"
  using json_dumps_prefix [of a b "[]" "[]" ea] by (simp add: no_digit_hd_def)

lemma map_insort_key_fst:
  "(\<And>x. fst (g x) = fst x) \<Longrightarrow>
   map g (insort_key fst x ys) = insort_key fst (g x) (map g ys)"
  by (induction ys) simp_all

lemma map_sort_key_fst:
  "(\<And>x. fst (g x) = fst x) \<Longrightarrow> map g (sort_key fst xs) = sort_key fst (map g xs)"
  by (induction xs) (simp_all add: map_insort_key_fst)

lemma sort_key_twice: "sort_key f (sort_key f xs) = sort_key f xs"
  by (rule sort_key_id_if_sorted) (rule sorted_sort_key)

lemma sorted_canon: "sorted_json (canon j)"
proof (induction j)
  case (JList xs)
  then show ?case by (simp add: list_all_iff)
next
  case (JDict kvs)
  have "sorted (map fst (sort_key fst (map (\<lambda>(k, v). (k, canon v)) kvs)))"
    by (rule sorted_sort_key)
  moreover have "list_all (\<lambda>(k, v). sorted_json v) (sort_key fst (map (\<lambda>(k, v). (k, canon v)) kvs))"
    using JDict.IH by (fastforce simp: list_all_iff)
  ultimately show ?case by simp
qed simp_all

lemma dumps_canon: "json_dumps ea (canon j) = json_dumps ea j"
proof (induction j)
  case (JList xs)
  then have m: "map (json_dumps ea) (map canon xs) = map (json_dumps ea) xs"
    by (induction xs) auto
  show ?case by (simp only: canon.simps json_dumps.simps m)
next
  case (JDict kvs)
  let ?D = "\<lambda>(k, v). (k, json_dumps ea v)"
  let ?C = "\<lambda>(k :: string, v). (k, canon v)"
  have fstD: "fst (?D x) = fst x" for x :: "string \<times> json"
    by (cases x) simp
  have "map ?D (map ?C kvs) = map ?D kvs"
    using JDict.IH by (fastforce)
  moreover have "map ?D (sort_key fst (map ?C kvs)) = sort_key fst (map ?D (map ?C kvs))"
    using fstD by (rule map_sort_key_fst)
  ultimately have "sort_key fst (map ?D (sort_key fst (map ?C kvs))) = sort_key fst (map ?D kvs)"
    by (simp only: sort_key_twice)
  then show ?case
    by (simp only: canon.simps json_dumps.simps)
qed simp_all

text \<open>Two JSON values have the same canonical text exactly when they agree up to the
  order of dictionary items.\<close>

lemma json_dumps_eq_iff: "json_dumps ea a = json_dumps ea b \<longleftrightarrow> canon a = canon b"
proof
  assume "json_dumps ea a = json_dumps ea b"
  then have "json_dumps ea (canon a) = json_dumps ea (canon b)"
    by (simp add: dumps_canon)
  then show "canon a = canon b"
    by (rule json_dumps_inj_sorted [OF sorted_canon sorted_canon])
next
  assume "canon a = canon b"
  then have "json_dumps ea (canon a) = json_dumps ea (canon b)" by simp
  then show "json_dumps ea a = json_dumps ea b"
    by (simp add: dumps_canon)
qed

section \<open>Verification: the evidence chain\<close>



lemma to_json_tuple: "to_json (PyTuple xs) = to_json (PyList xs)"
  by simp

lemma py_dumps_eq_iff: "py_dumps ea a = py_dumps ea b \<longleftrightarrow> canonical a = canonical b"
  by (auto simp: py_dumps_def canonical_def json_dumps_eq_iff split: sum.splits)





















section \<open>Verification: Merkle proofs\<close>

lemma three_leaf_root: "root (MerkleTree H [a, b, c]) = Some (H (H (a @ b) @ H (c @ c)))"
  by (simp add: MerkleTree_def build_tree_def build_levels.simps root_def hash_pair_def)

lemma three_leaf_proof: "get_proof (MerkleTree H [a, b, c]) 2 = [(H (a @ b), ''left'')]"
  by (simp add: MerkleTree_def build_tree_def build_levels.simps get_proof_def hash_pair_def)

text \<open>The scenario of the specification: five leaves, the proof for index 2 verifies.\<close>

lemma five_leaf_roundtrip:
  "verify_proof H c (get_proof (MerkleTree H [a, b, c, d, e]) 2)
     (the (root (MerkleTree H [a, b, c, d, e])))"
  by (simp add: MerkleTree_def build_tree_def build_levels.simps get_proof_def hash_pair_def
      root_def verify_proof_def)

text \<open>With a collision-free hash, a proof accepts at most one leaf hash.\<close>

lemma verify_walk_inj:
  "inj H \<Longrightarrow> verify_walk H x ps = verify_walk H y ps \<Longrightarrow> x = y"
proof (induction ps arbitrary: x y)
  case Nil
  then show ?case by simp
next
  case (Cons sp ps)
  obtain s p where sp: "sp = (s, p)" by (cases sp)
  from Cons.prems(2) have "verify_walk H (H (if p = ''right'' then x @ s else s @ x)) ps
      = verify_walk H (H (if p = ''right'' then y @ s else s @ y)) ps"
    by (simp add: sp)
  then have "H (if p = ''right'' then x @ s else s @ x)
      = H (if p = ''right'' then y @ s else s @ y)"
    using Cons.IH [OF Cons.prems(1)] by blast
  then have "(if p = ''right'' then x @ s else s @ x) = (if p = ''right'' then y @ s else s @ y)"
    using Cons.prems(1) by (simp add: inj_eq)
  then show ?case by (simp split: if_splits)
qed

lemma verify_proof_tamper:
  "inj H \<Longrightarrow> verify_proof H x ps rt \<Longrightarrow> y \<noteq> x \<Longrightarrow> \<not> verify_proof H y ps rt"
  using verify_walk_inj [of H y ps x] by (auto simp: verify_proof_def)

text \<open>
  C3. The round trip fails for the last leaf of a level of odd length. With three leaves
  \<^verbatim>\<open>_build_tree\<close> pairs the third leaf with itself, so the root is
  \<open>H (H (a @ b) @ H (c @ c))\<close>, but \<^verbatim>\<open>get_proof(2)\<close> finds sibling index 3 out of
  range and records nothing for that level: the proof is the single sibling
  \<open>H (a @ b)\<close>, and \<^verbatim>\<open>verify_proof\<close> compares \<open>H (H (a @ b) @ c)\<close> with the root.
  It accepts the genuine leaf only if the hash collides on these two texts.
\<close>

theorem merkle_roundtrip_last_of_three:
  "get_proof (MerkleTree H [a, b, c]) 2 = [(H (a @ b), ''left'')]
   \<and> root (MerkleTree H [a, b, c]) = Some (H (H (a @ b) @ H (c @ c)))
   \<and> verify_proof H ([a, b, c] ! 2) (get_proof (MerkleTree H [a, b, c]) 2)
        (the (root (MerkleTree H [a, b, c])))
       = (H (H (a @ b) @ c) = H (H (a @ b) @ H (c @ c)))"
  by (simp add: three_leaf_root three_leaf_proof verify_proof_def)

lemma last_leaf_rejected_without_collision:
  "inj H \<Longrightarrow> c \<noteq> H (c @ c) \<Longrightarrow>
   \<not> verify_proof H ([a, b, c] ! 2) (get_proof (MerkleTree H [a, b, c]) 2)
        (the (root (MerkleTree H [a, b, c])))"
  by (simp add: three_leaf_root three_leaf_proof verify_proof_def inj_eq)

section \<open>Verification: verify\_evidence\<close>

lemma split_on_not_Nil: "split_on sep s \<noteq> []"
  by (induction s) (auto split: list.splits)

lemma split_on_length: "length (split_on sep s) = Suc (length (filter (\<lambda>c. c = sep) s))"
proof (induction s)
  case Nil
  then show ?case by simp
next
  case (Cons x xs)
  then show ?case
    using split_on_not_Nil [of sep xs] by (auto split: list.splits)
qed

lemma split_on_no_sep: "filter (\<lambda>c. c = sep) s = [] \<Longrightarrow> split_on sep s = [s]"
  by (induction s) (auto split: if_splits)

lemma split_on_one:
  "length (filter (\<lambda>c. c = sep) s) = 1 \<Longrightarrow>
   split_on sep s
     = [takeWhile (\<lambda>c. c \<noteq> sep) s, drop (Suc (length (takeWhile (\<lambda>c. c \<noteq> sep) s))) s]"
proof (induction s)
  case Nil
  then show ?case by simp
next
  case (Cons x xs)
  show ?case
  proof (cases "x = sep")
    case True
    with Cons.prems have "filter (\<lambda>c. c = sep) xs = []" by simp
    then have "split_on sep xs = [xs]" by (rule split_on_no_sep)
    with True show ?thesis by simp
  next
    case False
    with Cons.prems have "length (filter (\<lambda>c. c = sep) xs) = 1" by simp
    then have "split_on sep xs
        = [takeWhile (\<lambda>c. c \<noteq> sep) xs, drop (Suc (length (takeWhile (\<lambda>c. c \<noteq> sep) xs))) xs]"
      by (rule Cons.IH)
    with False show ?thesis by simp
  qed
qed

lemma unpack_item_eq:
  "unpack_item item =
     (if well_formed_item item
      then Inr (takeWhile (\<lambda>c. c \<noteq> CHR '':'') item,
                drop (Suc (length (takeWhile (\<lambda>c. c \<noteq> CHR '':'') item))) item)
      else Inl ValueError)"
proof (cases "well_formed_item item")
  case True
  then show ?thesis
    by (simp add: unpack_item_def well_formed_item_def split_on_one)
next
  case False
  then have "length (split_on CHR '':'' item) \<noteq> 2"
    by (simp add: split_on_length well_formed_item_def)
  with False show ?thesis
    by (auto simp: unpack_item_def split: list.splits)
qed

lemma parse_path_eq:
  "parse_path path =
     (if list_all well_formed_item path
      then Inr (map (\<lambda>item. (takeWhile (\<lambda>c. c \<noteq> CHR '':'') item,
                              drop (Suc (length (takeWhile (\<lambda>c. c \<noteq> CHR '':'') item))) item)) path)
      else Inl ValueError)"
  by (induction path) (simp_all add: unpack_item_eq)

lemma verify_walk_replay:
  "verify_walk H current
     (map (\<lambda>item. (takeWhile (\<lambda>c. c \<noteq> CHR '':'') item,
                    drop (Suc (length (takeWhile (\<lambda>c. c \<noteq> CHR '':'') item))) item)) path)
   = foldl (replay_step H) current path"
  by (induction path arbitrary: current) (simp_all add: replay_step_def Let_def)

lemma verify_rehashes: "verify H e = Inr True \<longleftrightarrow> rehashes H e"
  by (auto simp: verify_def content_digest_def py_dumps_def rehashes_def split: sum.splits)

lemma verify_proof_replays:
  "(\<exists>ps. parse_path (merkle_path e) = Inr ps \<and> verify_proof H (content_hash e) ps rt)
     \<longleftrightarrow> replays H e rt"
  by (auto simp: parse_path_eq replays_def verify_proof_def verify_walk_replay)

lemma verify_evidence_empty_path:
  "merkle_path e = [] \<Longrightarrow> verify_evidence H w e = Inr True \<longleftrightarrow> rehashes H e"
  by (auto simp: verify_evidence_def verify_rehashes [symmetric] split: sum.splits option.splits)

lemma first_seal:
  "seal H now uuid et c m (XVault org key) = Inr (e, v) \<Longrightarrow> merkle_path e = [] \<and> rehashes H e"
  by (auto simp: seal_def Let_def XVault_def MerkleTree_empty_def add_leaf_def build_tree_def
      build_levels.simps get_proof_def rehashes_def content_digest_def py_dumps_def
      split: sum.splits)

lemma seal_raises: "seal H now uuid et c m v = Inl err \<Longrightarrow> \<not> serialisable c"
  by (auto simp: seal_def Let_def content_digest_def py_dumps_def serialisable_def split: sum.splits)

text \<open>
  C10. \<^verbatim>\<open>verify_evidence\<close> returns true exactly when the content re-hashes to the
  stored content hash and, if the stored Merkle path is not empty and the tree has a
  (non-empty) root, the stored path replays from the content hash to the current root.
  The first record sealed into an empty ledger has an empty path, and whatever the
  ledger has become, it is accepted on its content hash alone.
\<close>

theorem verify_evidence_iff:
  "((verify_evidence H v e = Inr True) \<longleftrightarrow>
      (rehashes H e \<and>
       (merkle_path e \<noteq> [] \<and> (\<exists>rt. root (merkle_tree v) = Some rt \<and> rt \<noteq> []) \<longrightarrow>
          replays H e (the (root (merkle_tree v))))))
   \<and> (case seal H now uuid et c m (XVault org key) of
         Inl err \<Rightarrow> \<not> serialisable c
       | Inr (e1, v1) \<Rightarrow>
           merkle_path e1 = [] \<and> rehashes H e1 \<and> verify_evidence H w e1 = Inr True)"
proof -
  have "(verify_evidence H v e = Inr True) \<longleftrightarrow>
      (verify H e = Inr True \<and>
       (merkle_path e \<noteq> [] \<and> (\<exists>rt. root (merkle_tree v) = Some rt \<and> rt \<noteq> []) \<longrightarrow>
          (\<exists>ps. parse_path (merkle_path e) = Inr ps
             \<and> verify_proof H (content_hash e) ps (the (root (merkle_tree v))))))"
    by (auto simp: verify_evidence_def split: option.splits sum.splits)
  then have one: "(verify_evidence H v e = Inr True) \<longleftrightarrow>
      (rehashes H e \<and>
       (merkle_path e \<noteq> [] \<and> (\<exists>rt. root (merkle_tree v) = Some rt \<and> rt \<noteq> []) \<longrightarrow>
          replays H e (the (root (merkle_tree v)))))"
    by (simp only: verify_rehashes verify_proof_replays)
  have two: "(case seal H now uuid et c m (XVault org key) of
         Inl err \<Rightarrow> \<not> serialisable c
       | Inr (e1, v1) \<Rightarrow>
           merkle_path e1 = [] \<and> rehashes H e1 \<and> verify_evidence H w e1 = Inr True)"
  proof (cases "seal H now uuid et c m (XVault org key)")
    case (Inl err)
    then show ?thesis
      by (simp add: seal_raises)
  next
    case (Inr ev)
    obtain e1 v1 where ev: "ev = (e1, v1)" by (cases ev)
    have "merkle_path e1 = [] \<and> rehashes H e1"
      using Inr ev first_seal by blast
    then show ?thesis
      using Inr ev by (simp add: verify_evidence_empty_path)
  qed
  from one two show ?thesis
    by (intro conjI)
qed

theorem verify_evidence_iff_witness:
  "verify_evidence id
      (seals id [(''t1'', ''u1'', SYSTEM_EVENT, PyStr ''a'', None),
                 (''t2'', ''u2'', SYSTEM_EVENT, PyStr ''b'', None)] (XVault ''org'' ''key''))
      (evidence_chain
         (seals id [(''t1'', ''u1'', SYSTEM_EVENT, PyStr ''a'', None),
                    (''t2'', ''u2'', SYSTEM_EVENT, PyStr ''b'', None)] (XVault ''org'' ''key''))
       ! 1) = Inr True
   \<and> merkle_path (evidence_chain
         (seals id [(''t1'', ''u1'', SYSTEM_EVENT, PyStr ''a'', None),
                    (''t2'', ''u2'', SYSTEM_EVENT, PyStr ''b'', None)] (XVault ''org'' ''key''))
       ! 1) = [[CHR 0x22, CHR ''a'', CHR 0x22] @ '':left'']
   \<and> root (merkle_tree
         (seals id [(''t1'', ''u1'', SYSTEM_EVENT, PyStr ''a'', None),
                    (''t2'', ''u2'', SYSTEM_EVENT, PyStr ''b'', None)] (XVault ''org'' ''key'')))
       = Some [CHR 0x22, CHR ''a'', CHR 0x22, CHR 0x22, CHR ''b'', CHR 0x22]
   \<and> replays id
       (evidence_chain
         (seals id [(''t1'', ''u1'', SYSTEM_EVENT, PyStr ''a'', None),
                    (''t2'', ''u2'', SYSTEM_EVENT, PyStr ''b'', None)] (XVault ''org'' ''key''))
       ! 1)
       [CHR 0x22, CHR ''a'', CHR 0x22, CHR 0x22, CHR ''b'', CHR 0x22]"
proof -
  let ?V = "seals id [(''t1'', ''u1'', SYSTEM_EVENT, PyStr ''a'', None),
                      (''t2'', ''u2'', SYSTEM_EVENT, PyStr ''b'', None)] (XVault ''org'' ''key'')"
  let ?e = "evidence_chain ?V ! 1"
  have p: "merkle_path ?e = [[CHR 0x22, CHR ''a'', CHR 0x22] @ '':left'']"
    by (simp add: seal_def Let_def XVault_def MerkleTree_empty_def add_leaf_def build_tree_def
        build_levels.simps get_proof_def hash_pair_def content_digest_def py_dumps_def
        dumps_str_def escape_char_def)
  have r: "root (merkle_tree ?V) = Some [CHR 0x22, CHR ''a'', CHR 0x22, CHR 0x22, CHR ''b'', CHR 0x22]"
    by (simp add: seal_def Let_def XVault_def MerkleTree_empty_def add_leaf_def build_tree_def
        build_levels.simps root_def hash_pair_def content_digest_def py_dumps_def
        dumps_str_def escape_char_def)
  have h: "rehashes id ?e"
    by (simp add: seal_def Let_def XVault_def content_digest_def py_dumps_def rehashes_def)
  have y: "replays id ?e [CHR 0x22, CHR ''a'', CHR 0x22, CHR 0x22, CHR ''b'', CHR 0x22]"
    unfolding replays_def p
    by (simp add: seal_def Let_def XVault_def content_digest_def py_dumps_def
        dumps_str_def escape_char_def well_formed_item_def replay_step_def)
  have "verify_evidence id ?V ?e = Inr True"
    using verify_evidence_iff [of id ?V ?e] p r h y by simp
  with p r y show ?thesis
    by (intro conjI)
qed

section \<open>Verification: project ids\<close>

lemma body_imp_spec: "project_id_body s \<Longrightarrow> spec_partition_id s"
  apply (cases s)
   apply (simp add: project_id_body_def)
  subgoal for c rest
    apply (cases rest rule: rev_cases)
     apply (simp add: project_id_body_def)
    apply (auto simp: project_id_body_def spec_partition_id_def is_lower_alnum_def)
    done
  done

lemma spec_imp_body: "spec_partition_id s \<Longrightarrow> project_id_body s"
  apply (cases s)
   apply (simp add: spec_partition_id_def)
  subgoal for c rest
    apply (cases rest rule: rev_cases)
     apply (simp add: spec_partition_id_def)
    apply (auto simp: project_id_body_def spec_partition_id_def)
    done
  done

lemma nl_not_alnum: "\<not> is_lower_alnum (CHR 0x0A)"
  by (simp add: is_lower_alnum_def is_digit_def)



section \<open>Verification: sequence allocation\<close>

lemma generate_id: "fst (generate_next_edi y db) = ''EVE-'' @ str_nat y @ ''-'' @ zfill6 (str_nat (allocated_seq y db))"
  by (simp add: generate_next_edi_def allocated_seq_def Let_def)

lemma generate_same: "allocated_seq y (snd (generate_next_edi y db)) = allocated_seq y db + 1"
  by (simp add: generate_next_edi_def allocated_seq_def Let_def)

lemma generate_other: "y' \<noteq> y \<Longrightarrow> allocated_seq y' (snd (generate_next_edi y db)) = allocated_seq y' db"
  by (auto simp: generate_next_edi_def allocated_seq_def Let_def dest: str_nat_inj)

lemma generate_mono: "allocated_seq y' db \<le> allocated_seq y' (snd (generate_next_edi y db))"
  by (cases "y' = y") (simp_all add: generate_same generate_other)

lemma allocations_length: "length (allocations ys db) = length ys"
  by (induction ys arbitrary: db) auto

lemma allocations_lower:
  "j < length ys \<Longrightarrow> ys ! j = y \<Longrightarrow> allocated_seq y db \<le> allocations ys db ! j"
proof (induction ys arbitrary: db j)
  case Nil
  then show ?case by simp
next
  case (Cons z ys)
  show ?case
  proof (cases j)
    case 0
    with Cons.prems show ?thesis by simp
  next
    case (Suc k)
    with Cons.prems have "allocated_seq y (snd (generate_next_edi z db)) \<le> allocations ys (snd (generate_next_edi z db)) ! k"
      using Cons.IH [of k "snd (generate_next_edi z db)"] by simp
    with Suc show ?thesis
      using generate_mono [of y db z] by simp
  qed
qed

lemma allocations_increasing:
  "i < j \<Longrightarrow> j < length ys \<Longrightarrow> ys ! i = ys ! j \<Longrightarrow> allocations ys db ! i < allocations ys db ! j"
proof (induction ys arbitrary: db i j)
  case Nil
  then show ?case by simp
next
  case (Cons z ys)
  obtain k where j: "j = Suc k" using Cons.prems(1) by (cases j) auto
  show ?case
  proof (cases i)
    case 0
    then have zy: "z = ys ! k" using Cons.prems(3) j by simp
    have "allocated_seq z (snd (generate_next_edi z db)) \<le> allocations ys (snd (generate_next_edi z db)) ! k"
      using allocations_lower [of k ys z] Cons.prems(2) j zy by simp
    then show ?thesis
      using 0 j by (simp add: generate_same)
  next
    case (Suc l)
    then show ?thesis
      using Cons.prems j Cons.IH [of l k "snd (generate_next_edi z db)"] by simp
  qed
qed

lemma allocations_fresh_year:
  "y \<notin> set ys \<Longrightarrow> allocations (ys @ [y]) db ! length ys = allocated_seq y db"
proof (induction ys arbitrary: db)
  case Nil
  then show ?case by simp
next
  case (Cons z ys)
  then show ?case by (simp add: generate_other)
qed

lemma fresh_is_one: "edi_sequence db (str_nat y) = None \<Longrightarrow> allocated_seq y db = 1"
  by (simp add: allocated_seq_def)


section \<open>Verification: the decision engine\<close>

lemma link_fold_fields:
  "decisions (foldl (\<lambda>d aid. link_artifact_to_decision aid ident d) db aids) = decisions db
   \<and> vault (foldl (\<lambda>d aid. link_artifact_to_decision aid ident d) db aids) = vault db
   \<and> edi_sequence (foldl (\<lambda>d aid. link_artifact_to_decision aid ident d) db aids) = edi_sequence db"
  by (induction aids arbitrary: db) (simp_all add: link_artifact_to_decision_def)

lemma generate_fields:
  "decisions (snd (generate_next_edi y db)) = decisions db
   \<and> vault (snd (generate_next_edi y db)) = vault db
   \<and> artifacts (snd (generate_next_edi y db)) = artifacts db"
  by (simp add: generate_next_edi_def Let_def)

lemma seal_to_vault_Inr:
  "seal_to_vault H now ident etype d db = Inr (entry, db') \<Longrightarrow>
   db' = db\<lparr>vault := vault db @ [entry]\<rparr> \<and> entry_decision_id entry = ident"
  by (auto simp: seal_to_vault_def Let_def split: if_splits)

lemma create_decision_object_fields:
  "create_decision_object H now ident cmd = Inr d \<Longrightarrow>
   eve_decision_id d = ident \<and> status d = ''EXECUTED'' \<and> superseded_by d = None
   \<and> supersedes d = dict_get (params cmd) ''supersedes''
   \<and> (\<exists>pid hv. normalize_project_id (dict_get (params cmd) ''project_id'') = Inr (pid, hv)
         \<and> project_id d = pid \<and> hash_version d = hv
         \<and> context_hash d = H (context_data pid (params cmd)))"
  by (auto simp: create_decision_object_def Let_def split: sum.splits option.splits prod.splits)

lemma supersede_first_length: "length (supersede_first t i ds) = length ds"
  by (induction ds) auto

lemma supersede_first_append:
  "find (\<lambda>d. JStr (eve_decision_id d) = t) ds = Some a \<Longrightarrow>
   supersede_first t i (ds @ [b]) = supersede_first t i ds @ [b]"
  by (induction ds) (auto split: if_splits)

lemma find_supersede_first:
  "find (\<lambda>d. JStr (eve_decision_id d) = t) ds = Some a \<Longrightarrow>
   find (\<lambda>d. JStr (eve_decision_id d) = t) (supersede_first t i ds)
     = Some (a\<lparr>status := ''SUPERSEDED'', superseded_by := Some i\<rparr>)"
  by (induction ds) (auto split: if_splits)

lemma find_append_Some: "find P xs = Some a \<Longrightarrow> find P (xs @ ys) = Some a"
  by (induction xs) (auto split: if_splits)

text \<open>The supersede path.\<close>

lemma execute_supersede_missing:
  "map_of (params cmd) ''supersedes'' = Some target \<Longrightarrow> get_decision db target = None \<Longrightarrow>
   execute_supersede H clk cmd ws db
     = (Inr (Failed [''Decision not found: '' @ py_str target] None), db)"
  by (simp add: execute_supersede_def)

lemma execute_supersede_not_executed:
  "map_of (params cmd) ''supersedes'' = Some target \<Longrightarrow> get_decision db target = Some a \<Longrightarrow>
   status a \<noteq> ''EXECUTED'' \<Longrightarrow>
   execute_supersede H clk cmd ws db
     = (Inr (Failed [''Cannot supersede '' @ status a @ '' decision''] None), db)"
  by (simp add: execute_supersede_def)

lemma execute_supersede_Written:
  assumes "execute_supersede H clk cmd ws db = (Inr (Written ident p t w), db')"
  shows "\<exists>target a b entry.
           map_of (params cmd) ''supersedes'' = Some target
         \<and> get_decision db target = Some a \<and> status a = ''EXECUTED''
         \<and> ident = fst (generate_next_edi (clock_year clk) db)
         \<and> create_decision_object H (clock_created clk) ident cmd = Inr b
         \<and> decisions db' = supersede_first target ident (decisions db) @ [b]
         \<and> vault db' = vault db @ [entry] \<and> entry_decision_id entry = ident
         \<and> edi_sequence db' = edi_sequence (snd (generate_next_edi (clock_year clk) db))
         \<and> artifacts db' = artifacts db
         \<and> w = Some ((''Superseded: '' @ py_str target) # ws)"
proof -
  from assms obtain target where tg: "map_of (params cmd) ''supersedes'' = Some target"
    by (auto simp: execute_supersede_def split: option.splits)
  from assms tg obtain a where a: "get_decision db target = Some a"
    by (auto simp: execute_supersede_def split: option.splits)
  from assms tg a have st: "status a = ''EXECUTED''"
    by (auto simp: execute_supersede_def split: if_splits)
  obtain i db1 where gen: "generate_next_edi (clock_year clk) db = (i, db1)"
    by (cases "generate_next_edi (clock_year clk) db")
  from assms tg a st gen obtain b where b: "create_decision_object H (clock_created clk) i cmd = Inr b"
    by (auto simp: execute_supersede_def split: sum.splits)
  from assms tg a st gen b obtain entry db4 where
    sl: "seal_to_vault H (clock_sealed clk) i ''DECISION'' b
           (supersede target i (insert_decision b db1)) = Inr (entry, db4)"
    by (auto simp: execute_supersede_def Let_def split: sum.splits)
  from assms tg a st gen b sl have res: "ident = i" "db' = db4"
    "w = Some ((''Superseded: '' @ py_str target) # ws)"
    by (auto simp: execute_supersede_def Let_def)
  from seal_to_vault_Inr [OF sl] have db4: "db4 = (supersede target i (insert_decision b db1))
       \<lparr>vault := vault (supersede target i (insert_decision b db1)) @ [entry]\<rparr>"
    and eid: "entry_decision_id entry = i" by simp_all
  have f: "decisions db1 = decisions db" "vault db1 = vault db" "artifacts db1 = artifacts db"
    using generate_fields [of "clock_year clk" db] gen by simp_all
  have fnd: "find (\<lambda>d. JStr (eve_decision_id d) = target) (decisions db) = Some a"
    using a by (simp add: get_decision_def)
  have dec: "decisions db' = supersede_first target i (decisions db) @ [b]"
    using res db4 f supersede_first_append [OF fnd, of i b]
    by (simp add: supersede_def insert_decision_def)
  show ?thesis
    using tg a st gen b dec res db4 f eid
    by (auto simp: supersede_def insert_decision_def)
qed

lemma execute_supersede_Failed:
  "execute_supersede H clk cmd ws db = (Inr (Failed errs w), db') \<Longrightarrow> db' = db"
  by (auto simp: execute_supersede_def Let_def split: option.splits if_splits sum.splits prod.splits)

lemma execute_supersede_not_read:
  "execute_supersede H clk cmd ws db \<noteq> (Inr Read_ok, db')"
  by (auto simp: execute_supersede_def Let_def split: option.splits if_splits sum.splits prod.splits)

text \<open>The plain path.\<close>

lemma execute_decision_plain_Written:
  assumes "\<not> truthy (dict_get (params cmd) ''supersedes'')"
    and "execute_decision H clk cmd ws db = (Inr (Written ident p t w), db')"
  shows "\<exists>b entry.
           ident = fst (generate_next_edi (clock_year clk) db)
         \<and> create_decision_object H (clock_created clk) ident cmd = Inr b
         \<and> decisions db' = decisions db @ [b]
         \<and> vault db' = vault db @ [entry] \<and> entry_decision_id entry = ident
         \<and> edi_sequence db' = edi_sequence (snd (generate_next_edi (clock_year clk) db))"
proof -
  obtain i db1 where gen: "generate_next_edi (clock_year clk) db = (i, db1)"
    by (cases "generate_next_edi (clock_year clk) db")
  from assms gen obtain b where b: "create_decision_object H (clock_created clk) i cmd = Inr b"
    by (auto simp: execute_decision_def split: sum.splits)
  from assms gen b obtain entry db3 where
    sl: "seal_to_vault H (clock_sealed clk) i ''DECISION'' b (insert_decision b db1) = Inr (entry, db3)"
    by (auto simp: execute_decision_def Let_def split: sum.splits)
  from assms gen b sl obtain aids where
    it: "py_iter (dict_get_default (params cmd) ''artifacts'' (JList [])) = Inr aids"
    by (auto simp: execute_decision_def Let_def split: sum.splits)
  from assms gen b sl it have res: "ident = i"
    "db' = foldl (\<lambda>d aid. link_artifact_to_decision aid i d) db3 aids"
    by (auto simp: execute_decision_def Let_def)
  from seal_to_vault_Inr [OF sl] have db3: "db3 = (insert_decision b db1)
       \<lparr>vault := vault (insert_decision b db1) @ [entry]\<rparr>"
    and eid: "entry_decision_id entry = i" by simp_all
  have f: "decisions db1 = decisions db" "vault db1 = vault db"
    using generate_fields [of "clock_year clk" db] gen by simp_all
  show ?thesis
    using gen b res db3 f eid link_fold_fields [of i db3 aids]
    by (auto simp: insert_decision_def)
qed

lemma execute_decision_Failed:
  "execute_decision H clk cmd ws db = (Inr (Failed errs w), db') \<Longrightarrow> db' = db"
  by (auto simp: execute_decision_def Let_def dest: execute_supersede_Failed
      split: if_splits sum.splits prod.splits)

text \<open>Both paths together: what a written decision leaves behind.\<close>

lemma execute_decision_Written:
  assumes "execute_decision H clk cmd ws db = (Inr (Written ident p t w), db')"
  shows "ident = fst (generate_next_edi (clock_year clk) db)"
    and "create_decision_object H (clock_created clk) ident cmd = Inr (last (decisions db'))"
    and "length (decisions db') = Suc (length (decisions db))"
    and "length (vault db') = Suc (length (vault db))"
    and "edi_sequence db' = edi_sequence (snd (generate_next_edi (clock_year clk) db))"
proof -
  have "ident = fst (generate_next_edi (clock_year clk) db)
       \<and> create_decision_object H (clock_created clk) ident cmd = Inr (last (decisions db'))
       \<and> length (decisions db') = Suc (length (decisions db))
       \<and> length (vault db') = Suc (length (vault db))
       \<and> edi_sequence db' = edi_sequence (snd (generate_next_edi (clock_year clk) db))"
  proof (cases "truthy (dict_get (params cmd) ''supersedes'')")
    case True
    with assms have "execute_supersede H clk cmd ws db = (Inr (Written ident p t w), db')"
      by (simp add: execute_decision_def)
    from execute_supersede_Written [OF this] show ?thesis
      by (auto simp: supersede_first_length)
  next
    case False
    from execute_decision_plain_Written [OF False assms] show ?thesis
      by auto
  qed
  then show "ident = fst (generate_next_edi (clock_year clk) db)"
    and "create_decision_object H (clock_created clk) ident cmd = Inr (last (decisions db'))"
    and "length (decisions db') = Suc (length (decisions db))"
    and "length (vault db') = Suc (length (vault db))"
    and "edi_sequence db' = edi_sequence (snd (generate_next_edi (clock_year clk) db))"
    by blast+
qed

lemma execute_command_decision:
  assumes "success parsed" and "command parsed = Some cmd0"
    and "cmd_type cmd0 \<noteq> ''read''"
  shows "execute_command H clk parsed pid db =
     (case validate (request_command cmd0 pid) of
        Inl err \<Rightarrow> (Inl err, db)
      | Inr v \<Rightarrow>
          if \<not> valid v then (Inr (Failed (errors v) (Some (warnings v))), db)
          else execute_decision H clk (request_command cmd0 pid) (warnings v) db)"
  using assms
  by (auto simp: execute_command_def request_command_def Let_def split: option.splits sum.splits)

lemma execute_command_Failed:
  "execute_command H clk parsed pid db = (Inr (Failed errs w), db') \<Longrightarrow> db' = db"
  by (auto simp: execute_command_def Let_def dest: execute_decision_Failed
      split: if_splits option.splits sum.splits)

lemma execute_Failed:
  "execute H loads clk ecl_input pid db = (Inr (Failed errs w), db') \<Longrightarrow> db' = db"
  by (auto simp: execute_def dest: execute_command_Failed split: sum.splits)

lemma execute_command_Written:
  assumes "execute_command H clk parsed pid db = (Inr (Written ident p t w), db')"
  shows "\<exists>cmd0 v. success parsed \<and> command parsed = Some cmd0
          \<and> validate (request_command cmd0 pid) = Inr v \<and> valid v
          \<and> execute_decision H clk (request_command cmd0 pid) (warnings v) db
               = (Inr (Written ident p t w), db')"
proof -
  from assms have s: "success parsed"
    by (auto simp: execute_command_def split: if_splits)
  with assms obtain cmd0 where c: "command parsed = Some cmd0"
    by (auto simp: execute_command_def split: option.splits)
  have nr: "cmd_type (request_command cmd0 pid) \<noteq> ''read''"
  proof
    assume "cmd_type (request_command cmd0 pid) = ''read''"
    with assms s c show False
      by (cases pid) (auto simp: execute_command_def request_command_def execute_read_def Let_def
          split: if_splits option.splits)
  qed
  then have "cmd_type cmd0 \<noteq> ''read''"
    by (cases pid) (simp_all add: request_command_def)
  from execute_command_decision [OF s c this, of H clk pid db] assms s c show ?thesis
    by (auto split: sum.splits if_splits)
qed

text \<open>Exactly one allocation per written decision.\<close>

lemma execute_command_Written_effect:
  assumes "execute_command H clk parsed pid db = (Inr (Written ident p t w), db')"
  shows "ident = ''EVE-'' @ str_nat (clock_year clk) @ ''-''
                   @ zfill6 (str_nat (allocated_seq (clock_year clk) db))
       \<and> allocated_seq (clock_year clk) db' = allocated_seq (clock_year clk) db + 1
       \<and> (\<forall>y. y \<noteq> clock_year clk \<longrightarrow> allocated_seq y db' = allocated_seq y db)
       \<and> length (decisions db') = Suc (length (decisions db))
       \<and> length (vault db') = Suc (length (vault db))
       \<and> eve_decision_id (last (decisions db')) = ident"
proof -
  from execute_command_Written [OF assms] obtain cmd0 and v :: validation where
    ex: "execute_decision H clk (request_command cmd0 pid) (warnings v) db
               = (Inr (Written ident p t w), db')"
    by (elim exE conjE)
  note i = execute_decision_Written(1) [OF ex]
    and b = execute_decision_Written(2) [OF ex]
    and l = execute_decision_Written(3,4) [OF ex]
    and e = execute_decision_Written(5) [OF ex]
  have same: "allocated_seq y db' = allocated_seq y (snd (generate_next_edi (clock_year clk) db))" for y
    using e by (simp add: allocated_seq_def)
  show ?thesis
    using i l same create_decision_object_fields [OF b]
    by (simp add: generate_id generate_same generate_other)
qed


text \<open>
  C1. Partition isolation. The same parsed instruction is executed twice, under two
  different project ids that the project-id check accepts, the second time on the
  ledger that the first run left. If both runs write a decision and the hash is
  collision-free, the two decision ids differ, and the two decision records, filed
  under their project ids, carry different context hashes.
\<close>

theorem partition_isolation:
  assumes "inj H" and "p1 \<noteq> p2"
    and "PROJECT_ID_REGEX_match p1" and "PROJECT_ID_REGEX_match p2"
    and "execute_command H clk1 parsed (Some p1) db = (Inr (Written id1 v1 t1 w1), db1)"
    and "execute_command H clk2 parsed (Some p2) db1 = (Inr (Written id2 v2 t2 w2), db2)"
  shows "id1 \<noteq> id2
       \<and> eve_decision_id (last (decisions db1)) = id1
       \<and> eve_decision_id (last (decisions db2)) = id2
       \<and> project_id (last (decisions db1)) = p1
       \<and> project_id (last (decisions db2)) = p2
       \<and> context_hash (last (decisions db1)) \<noteq> context_hash (last (decisions db2))"
proof -
  from execute_command_Written [OF assms(5)] obtain cmd0 and v :: validation where
    c: "command parsed = Some cmd0"
    and ex1: "execute_decision H clk1 (request_command cmd0 (Some p1)) (warnings v) db
               = (Inr (Written id1 v1 t1 w1), db1)"
    by (elim exE conjE)
  from execute_command_Written [OF assms(6)] c obtain v' :: validation where
    ex2: "execute_decision H clk2 (request_command cmd0 (Some p2)) (warnings v') db1
               = (Inr (Written id2 v2 t2 w2), db2)"
    by (elim exE conjE) simp
  have ne: "p1 \<noteq> []" "p2 \<noteq> []"
    using assms(3,4) by (auto simp: PROJECT_ID_REGEX_match_def project_id_body_def)
  let ?ps = "\<lambda>p. dict_set ''project_id'' (JStr p) (params cmd0)"
  have ps: "params (request_command cmd0 (Some q)) = ?ps q" for q
    by (simp add: request_command_def)
  have other: "dict_get (?ps p1) k = dict_get (?ps p2) k" if "k \<noteq> ''project_id''" for k
    using that by (simp add: dict_get_set_other)
  note b1 = execute_decision_Written(2) [OF ex1]
    and b2 = execute_decision_Written(2) [OF ex2]
  from create_decision_object_fields [OF b1] have
    d1: "eve_decision_id (last (decisions db1)) = id1"
      "project_id (last (decisions db1)) = p1"
      "context_hash (last (decisions db1)) = H (context_data p1 (?ps p1))"
    using ne by (auto simp: ps dict_get_set_same normalize_project_id_def split: if_splits)
  from create_decision_object_fields [OF b2] have
    d2: "eve_decision_id (last (decisions db2)) = id2"
      "project_id (last (decisions db2)) = p2"
      "context_hash (last (decisions db2)) = H (context_data p2 (?ps p2))"
    using ne by (auto simp: ps dict_get_set_same normalize_project_id_def split: if_splits)
  have "context_data p2 (?ps p2) = context_data p2 (?ps p1)"
    by (simp add: context_data_def dict_get_set_other)
  then have "context_data p1 (?ps p1) \<noteq> context_data p2 (?ps p2)"
    using context_data_inj [of p1 "?ps p1" p2] assms(2) by auto
  then have hashes: "context_hash (last (decisions db1)) \<noteq> context_hash (last (decisions db2))"
    using d1(3) d2(3) assms(1) by (simp add: inj_eq)
  from execute_command_Written_effect [OF assms(5)] have
    i1: "id1 = ''EVE-'' @ str_nat (clock_year clk1) @ ''-''
                   @ zfill6 (str_nat (allocated_seq (clock_year clk1) db))"
    and s1: "allocated_seq (clock_year clk1) db1 = allocated_seq (clock_year clk1) db + 1"
    by simp_all
  from execute_command_Written_effect [OF assms(6)] have
    i2: "id2 = ''EVE-'' @ str_nat (clock_year clk2) @ ''-''
                   @ zfill6 (str_nat (allocated_seq (clock_year clk2) db1))"
    by simp
  have "id1 \<noteq> id2"
  proof
    assume "id1 = id2"
    with i1 i2 have "clock_year clk1 = clock_year clk2
        \<and> allocated_seq (clock_year clk1) db = allocated_seq (clock_year clk2) db1"
      using edi_inj by metis
    with s1 show False by auto
  qed
  with d1 d2 hashes show ?thesis by simp
qed


end

